theory Spec2Isabelle
  imports Main "HOL-Library.Word" "HOL-Library.Multiset"
begin

unbundle bit_operations_syntax

section \<open>Errors and the directory on disk\<close>

text \<open>
  Go's \<open>int64\<close> is a 64-bit word read as two's complement: \<open>+\<close> and \<open>-\<close> wrap, and
  the comparisons of the source are the signed ones (\<open><s\<close>, \<open>\<le>s\<close>).
  Go's \<open>int\<close> is only ever compared with a slice length here, so it is an \<open>int\<close>.
\<close>

type_synonym int64 = "64 word"

text \<open>
  Every error value and panic the modelled code can produce. \<open>ErrNotExist\<close> is the one
  error for which \<open>os.IsNotExist\<close> answers true.
\<close>

datatype error =
    ErrNotExist
  | ErrPermission
  | ErrNotEmpty
  | ErrIsDir
  | ErrIO
  | ErrRand
  | ErrFormat
  | ErrEncode
  | PanicIndexOutOfRange

definition os_IsNotExist :: "error option \<Rightarrow> bool" where
  "os_IsNotExist err = (err = Some ErrNotExist)"

text \<open>
  \<open>os.FileInfo\<close>, as far as the program reads it: \<open>Name()\<close>, \<open>Size()\<close>,
  \<open>Mode().IsRegular()\<close> and \<open>ModTime()\<close> (an instant, in nanoseconds). An entry of the
  directory also records whether the operating system refuses to unlink it
  (\<open>fi_locked\<close>: an immutable file, a non-empty subdirectory), which is how
  \<open>os.Remove\<close> fails with an error other than "does not exist".
\<close>

record FileInfo =
  fi_Name :: string
  fi_Size :: int64
  fi_IsRegular :: bool
  fi_ModTime :: int
  fi_locked :: bool

text \<open>
  The managed directory is the list of its entries; \<open>ioutil.ReadDir\<close> reports them in
  the order of the list.
\<close>

type_synonym disk = "FileInfo list"

text \<open>
  A plain name is one a directory entry can have: not empty, not \<open>.\<close> or \<open>..\<close>,
  without separator or NUL, of at most 255 bytes. For a plain name,
  \<open>filepath.Join(d.path, name)\<close> is the path of the entry \<open>name\<close> of the directory, and
  a system call on it is answered from the list. For any other name the joined path is
  cleaned into the directory itself (the empty name, \<open>.\<close>), into another entry
  (\<open>./a\<close>), or into a path below or outside the directory, and the answer depends on
  what the list does not hold: there \<open>os_Stat\<close> is not the system's answer, and a
  statement about \<open>Add\<close> that decides by the list whether a file exists is made for plain
  names only. The program itself calls \<open>Add\<close> with the name it has generated,
  32 hexadecimal digits and \<open>.png\<close>.
\<close>

definition plain_name :: "string \<Rightarrow> bool" where
  "plain_name name \<longleftrightarrow>
     name \<noteq> [] \<and> name \<noteq> ''.'' \<and> name \<noteq> ''..'' \<and>
     CHR ''/'' \<notin> set name \<and> CHR 0x00 \<notin> set name \<and> length name \<le> 255"

definition os_Stat :: "disk \<Rightarrow> string \<Rightarrow> error + FileInfo" where
  "os_Stat fs name =
     (case find (\<lambda>e. fi_Name e = name) fs of
        None \<Rightarrow> Inl ErrNotExist
      | Some e \<Rightarrow> Inr e)"

text \<open>
  \<open>os.Remove\<close>. Joined with the empty name the path is the directory itself, which
  the system refuses to remove while it has entries; once it has none it is removed (the
  model does not follow the directory beyond that).
\<close>

definition os_Remove :: "disk \<Rightarrow> string \<Rightarrow> error option \<times> disk" where
  "os_Remove fs name =
     (if name = [] then (if fs = [] then (None, fs) else (Some ErrNotEmpty, fs))
      else
        (case find (\<lambda>e. fi_Name e = name) fs of
           None \<Rightarrow> (Some ErrNotExist, fs)
         | Some e \<Rightarrow>
             if fi_locked e then (Some ErrPermission, fs)
             else (None, filter (\<lambda>e. fi_Name e \<noteq> name) fs)))"

section \<open>LimitedDir\<close>

record File =
  Name :: string
  Size :: int64

text \<open>
  The struct \<open>LimitedDir\<close>. The field \<open>size\<close> is \<open>size_total\<close> here; the mutex
  \<open>lock\<close> has no counterpart, the model being sequential.
\<close>

record LimitedDir =
  path :: string
  maxSize :: int64
  maxCount :: int
  files :: "File list"
  size_total :: int64

definition Path :: "LimitedDir \<Rightarrow> string" where
  "Path d = path d"

text \<open>
  \<open>shrink\<close>: the eviction loop, \<open>over_limit\<close> being its condition.
  \<open>d.files[0]\<close> on an empty slice panics, which happens when \<open>maxCount\<close> is
  negative. The result is the returned error (\<open>None\<close> for \<open>nil\<close>), the directory
  and the struct as the call leaves them.
\<close>

definition over_limit :: "LimitedDir \<Rightarrow> bool" where
  "over_limit d \<longleftrightarrow>
     (maxSize d <s size_total d \<and> 0 < length (files d)) \<or> maxCount d < int (length (files d))"

function shrink :: "disk \<Rightarrow> LimitedDir \<Rightarrow> error option \<times> disk \<times> LimitedDir" where
  "shrink fs d =
     (if over_limit d
      then
        (if files d = [] then (Some PanicIndexOutOfRange, fs, d)
         else
           let f = hd (files d);
               (err, fs') = os_Remove fs (Name f)
           in if err \<noteq> None \<and> \<not> os_IsNotExist err then (err, fs', d)
              else
                let d1 = (if err = None then d\<lparr>size_total := size_total d - Size f\<rparr> else d)
                in shrink fs' (d1\<lparr>files := tl (files d1)\<rparr>))
      else (None, fs, d))"
  by pat_completeness auto
termination
  by (relation "measure (\<lambda>(fs, d). length (files d))") (auto split: if_splits)

declare shrink.simps [simp del]

text \<open>\<open>Add\<close>: stat, append, add the size, evict.\<close>

definition Add :: "disk \<Rightarrow> LimitedDir \<Rightarrow> string \<Rightarrow> error option \<times> disk \<times> LimitedDir" where
  "Add fs d name =
     (case os_Stat fs name of
        Inl err \<Rightarrow> (Some err, fs, d)
      | Inr st \<Rightarrow>
          shrink fs (d\<lparr>files := files d @ [\<lparr>Name = name, Size = fi_Size st\<rparr>],
                       size_total := size_total d + fi_Size st\<rparr>))"

text \<open>\<open>List\<close>: the names of the tracked files, appended one by one.\<close>

fun List_loop :: "File list \<Rightarrow> string list \<Rightarrow> string list" where
  "List_loop [] names = names"
| "List_loop (f # rest) names = List_loop rest (names @ [Name f])"

definition List_names :: "LimitedDir \<Rightarrow> string list" where
  "List_names d = List_loop (files d) []"

subsection \<open>OpenLimitedDir\<close>

text \<open>
  \<open>sortedFiles.Less\<close> compares modification times. \<open>sort.Sort\<close> is the library's; it
  is modelled by an insertion sort driven by \<open>Less\<close> (the order the library gives to
  entries of equal time is its own choice).
\<close>

definition Less :: "FileInfo \<Rightarrow> FileInfo \<Rightarrow> bool" where
  "Less a b \<longleftrightarrow> fi_ModTime a \<noteq> fi_ModTime b \<and> fi_ModTime a < fi_ModTime b"

definition sort_insert :: "FileInfo \<Rightarrow> FileInfo list \<Rightarrow> FileInfo list" where
  "sort_insert e es = takeWhile (\<lambda>x. \<not> Less e x) es @ e # dropWhile (\<lambda>x. \<not> Less e x) es"

definition sort_Sort :: "FileInfo list \<Rightarrow> FileInfo list" where
  "sort_Sort es = foldl (\<lambda>acc e. sort_insert e acc) [] es"

text \<open>
  What \<open>os.MkdirAll\<close> and \<open>ioutil.ReadDir\<close> answer is the environment's; the
  directory listed is the one as it is once \<open>MkdirAll\<close> has returned.
\<close>

record dir_env =
  MkdirAll_err :: "error option"
  ReadDir_err :: "error option"

text \<open>
  The loop over the sorted entries: \<open>fls\<close> is the slice made by
  \<open>make([]File, len(entries))\<close>, so every index \<open>i\<close> the loop writes is in range.
\<close>

fun scan_loop :: "FileInfo list \<Rightarrow> nat \<Rightarrow> File list \<Rightarrow> int64 \<Rightarrow> File list \<times> int64" where
  "scan_loop [] i fls tot = (fls, tot)"
| "scan_loop (e # es) i fls tot =
     (if \<not> fi_IsRegular e then scan_loop es (i + 1) fls tot
      else
        let fls' = fls[i := \<lparr>Name = fi_Name e, Size = fi_Size e\<rparr>]
        in scan_loop es (i + 1) fls' (tot + Size (fls' ! i)))"

text \<open>The tracked sequence and the total as they are just before the call of \<open>d.shrink()\<close>.\<close>

definition scan_entries :: "FileInfo list \<Rightarrow> File list \<times> int64" where
  "scan_entries entries =
     scan_loop entries 0 (replicate (length entries) \<lparr>Name = [], Size = 0\<rparr>) 0"

definition OpenLimitedDir ::
  "dir_env \<Rightarrow> disk \<Rightarrow> string \<Rightarrow> int64 \<Rightarrow> int \<Rightarrow> error option \<times> disk \<times> LimitedDir option" where
  "OpenLimitedDir env fs p maxSize0 maxCount0 =
     (case MkdirAll_err env of
        Some err \<Rightarrow> (Some err, fs, None)
      | None \<Rightarrow>
          (case ReadDir_err env of
             Some err \<Rightarrow> (Some err, fs, None)
           | None \<Rightarrow>
               let entries = sort_Sort fs;
                   (fls, tot) = scan_entries entries;
                   d = \<lparr>path = p, maxSize = maxSize0, maxCount = maxCount0,
                        files = fls, size_total = tot\<rparr>;
                   (err, fs', d') = shrink fs d
               in if err \<noteq> None then (err, fs', None) else (None, fs', Some d')))"

section \<open>The image: fixImage\<close>

type_synonym byte = "8 word"

text \<open>
  The colours \<open>png.Decode\<close> hands out, and \<open>Color.RGBA()\<close>, which gives the
  alpha-premultiplied 16-bit channels in \<open>uint32\<close>, as package \<open>image/color\<close> computes
  them. \<open>rgbaModel\<close> is \<open>color.RGBAModel.Convert\<close>, which \<open>(*image.RGBA).Set\<close> applies to
  the colour it is given.
\<close>

datatype Color =
    RGBA byte byte byte byte
  | NRGBA byte byte byte byte
  | RGBA64 "16 word" "16 word" "16 word" "16 word"
  | NRGBA64 "16 word" "16 word" "16 word" "16 word"
  | Gray byte
  | Gray16 "16 word"

definition widen8 :: "byte \<Rightarrow> 32 word" where
  "widen8 v = (let r = ucast v in r OR push_bit 8 r)"

fun Color_RGBA :: "Color \<Rightarrow> 32 word \<times> 32 word \<times> 32 word \<times> 32 word" where
  "Color_RGBA (RGBA r g b a) = (widen8 r, widen8 g, widen8 b, widen8 a)"
| "Color_RGBA (NRGBA r g b a) =
     (widen8 r * ucast a div 0xff, widen8 g * ucast a div 0xff, widen8 b * ucast a div 0xff,
      widen8 a)"
| "Color_RGBA (RGBA64 r g b a) = (ucast r, ucast g, ucast b, ucast a)"
| "Color_RGBA (NRGBA64 r g b a) =
     (ucast r * ucast a div 0xffff, ucast g * ucast a div 0xffff, ucast b * ucast a div 0xffff,
      ucast a)"
| "Color_RGBA (Gray y) = (widen8 y, widen8 y, widen8 y, 0xffff)"
| "Color_RGBA (Gray16 y) = (ucast y, ucast y, ucast y, 0xffff)"

fun rgbaModel :: "Color \<Rightarrow> Color" where
  "rgbaModel (RGBA r g b a) = RGBA r g b a"
| "rgbaModel c =
     (let (r, g, b, a) = Color_RGBA c
      in RGBA (ucast (drop_bit 8 r)) (ucast (drop_bit 8 g)) (ucast (drop_bit 8 b))
              (ucast (drop_bit 8 a)))"

text \<open>
  Points and rectangles of package \<open>image\<close> (the fields \<open>Min\<close> and \<open>Max\<close> are
  \<open>Min_pt\<close> and \<open>Max_pt\<close>). Coordinates are \<open>int\<close>: a decoded PNG is at most
  \<open>2^31 - 1\<close> pixels wide and high, far from the range of Go's 64-bit \<open>int\<close>.
\<close>

record Point =
  X :: int
  Y :: int

record Rectangle =
  Min_pt :: Point
  Max_pt :: Point

definition image_Rect :: "int \<Rightarrow> int \<Rightarrow> int \<Rightarrow> int \<Rightarrow> Rectangle" where
  "image_Rect x0 y0 x1 y1 =
     (let (x0, x1) = (if x0 > x1 then (x1, x0) else (x0, x1));
          (y0, y1) = (if y0 > y1 then (y1, y0) else (y0, y1))
      in \<lparr>Min_pt = \<lparr>X = x0, Y = y0\<rparr>, Max_pt = \<lparr>X = x1, Y = y1\<rparr>\<rparr>)"

definition Point_In :: "int \<Rightarrow> int \<Rightarrow> Rectangle \<Rightarrow> bool" where
  "Point_In x y r \<longleftrightarrow>
     X (Min_pt r) \<le> x \<and> x < X (Max_pt r) \<and> Y (Min_pt r) \<le> y \<and> y < Y (Max_pt r)"

definition Dx :: "Rectangle \<Rightarrow> int" where
  "Dx r = X (Max_pt r) - X (Min_pt r)"

definition Dy :: "Rectangle \<Rightarrow> int" where
  "Dy r = Y (Max_pt r) - Y (Min_pt r)"

text \<open>The decoded image, an \<open>image.Image\<close>: its bounds and its pixels.\<close>

record Image =
  Bounds :: Rectangle
  At :: "int \<Rightarrow> int \<Rightarrow> Color"

text \<open>
  An \<open>*image.RGBA\<close>: its rectangle and its pixels, by coordinates (the layout of the
  byte slice \<open>Pix\<close> is not modelled). \<open>Set\<close> does nothing outside the rectangle, and
  \<open>At\<close> answers the zero colour there.
\<close>

record RGBA_image =
  Rect :: Rectangle
  Pix :: "int \<Rightarrow> int \<Rightarrow> Color"

definition image_NewRGBA :: "Rectangle \<Rightarrow> RGBA_image" where
  "image_NewRGBA r = \<lparr>Rect = r, Pix = (\<lambda>x y. RGBA 0 0 0 0)\<rparr>"

definition RGBA_Set :: "RGBA_image \<Rightarrow> int \<Rightarrow> int \<Rightarrow> Color \<Rightarrow> RGBA_image" where
  "RGBA_Set p x y c =
     (if \<not> Point_In x y (Rect p) then p
      else p\<lparr>Pix := (Pix p)(x := (Pix p x)(y := rgbaModel c))\<rparr>)"

definition RGBA_At :: "RGBA_image \<Rightarrow> int \<Rightarrow> int \<Rightarrow> Color" where
  "RGBA_At p x y = (if \<not> Point_In x y (Rect p) then RGBA 0 0 0 0 else Pix p x y)"

definition white :: Color where
  "white = RGBA 255 255 255 255"

text \<open>The two nested loops of \<open>fixImage\<close>: the inner one over \<open>i\<close>, the outer one over \<open>j\<close>.\<close>

function row_loop ::
  "Image \<Rightarrow> Rectangle \<Rightarrow> Rectangle \<Rightarrow> int \<Rightarrow> int \<Rightarrow> RGBA_image \<Rightarrow> RGBA_image" where
  "row_loop src srcRect dstRect j i dst =
     (if i < X (Max_pt dstRect) then
        row_loop src srcRect dstRect j (i + 1)
          (if i \<ge> X (Min_pt srcRect) \<and> i < X (Max_pt srcRect) \<and>
              j \<ge> Y (Min_pt srcRect) \<and> j < Y (Max_pt srcRect)
           then RGBA_Set dst i j (At src i j)
           else RGBA_Set dst i j white)
      else dst)"
  by pat_completeness auto
termination
  by (relation "measure (\<lambda>(src, srcRect, dstRect, j, i, dst). nat (X (Max_pt dstRect) - i))") auto

declare row_loop.simps [simp del]

function rows_loop ::
  "Image \<Rightarrow> Rectangle \<Rightarrow> Rectangle \<Rightarrow> int \<Rightarrow> RGBA_image \<Rightarrow> RGBA_image" where
  "rows_loop src srcRect dstRect j dst =
     (if j < Y (Max_pt dstRect) then
        rows_loop src srcRect dstRect (j + 1)
          (row_loop src srcRect dstRect j (X (Min_pt dstRect)) dst)
      else dst)"
  by pat_completeness auto
termination
  by (relation "measure (\<lambda>(src, srcRect, dstRect, j, dst). nat (Y (Max_pt dstRect) - j))") auto

declare rows_loop.simps [simp del]

text \<open>The canvas \<open>dst\<close> that \<open>fixImage\<close> builds from the decoded image and hands to \<open>png.Encode\<close>.\<close>

definition canvas :: "Image \<Rightarrow> int \<Rightarrow> RGBA_image" where
  "canvas src padding =
     (let srcRect = Bounds src;
          dstRect = image_Rect (X (Min_pt srcRect) - padding) (Y (Min_pt srcRect) - padding)
                               (X (Max_pt srcRect) + padding) (Y (Max_pt srcRect) + padding);
          dst = image_NewRGBA dstRect
      in rows_loop src srcRect dstRect (Y (Min_pt dstRect)) dst)"

section \<open>The ingestion: save and the handler\<close>

text \<open>
  What the libraries and the operating system answer during one request:
  \<open>rand.Read\<close> (the 16 bytes, or an error), \<open>os.Create\<close> failing for a reason of its
  own, \<open>png.Decode\<close>, \<open>png.Encode\<close> (its error and the bytes it wrote to the file
  before returning), \<open>fp.Close\<close>, the JSON encoder (the text for a path, and its error),
  the text of an error value, and the clock that stamps a written file.
\<close>

record env =
  rand_Read :: "error + byte list"
  Create_err :: "error option"
  png_Decode :: "byte list \<Rightarrow> error + Image"
  png_Encode :: "RGBA_image \<Rightarrow> error option \<times> byte list"
  Close_err :: "error option"
  json_Marshal :: "string \<Rightarrow> string"
  Encode_err :: "error option"
  Error_text :: "error \<Rightarrow> string"
  clock :: int

text \<open>\<open>fixImage\<close>: the returned error and the bytes written to \<open>w\<close>.\<close>

definition fixImage :: "env \<Rightarrow> byte list \<Rightarrow> int \<Rightarrow> error option \<times> byte list" where
  "fixImage env r padding =
     (case png_Decode env r of
        Inl err \<Rightarrow> (Some err, [])
      | Inr src \<Rightarrow> png_Encode env (canvas src padding))"

text \<open>\<open>io.LimitedReader\<close>: the first \<open>N\<close> bytes of the stream, none when \<open>N \<le> 0\<close>.\<close>

definition LimitedReader :: "byte list \<Rightarrow> int64 \<Rightarrow> byte list" where
  "LimitedReader body n = take (nat (sint n)) body"

text \<open>\<open>fmt.Sprintf("%x", buf)\<close>: two lower-case hexadecimal digits for each byte.\<close>

definition hex_digit :: "nat \<Rightarrow> char" where
  "hex_digit n = ''0123456789abcdef'' ! (n mod 16)"

definition Sprintf_x :: "byte list \<Rightarrow> string" where
  "Sprintf_x buf = concat (map (\<lambda>b. [hex_digit (unat b div 16), hex_digit (unat b)]) buf)"

text \<open>
  \<open>os.Create\<close> makes a new, empty regular file, or truncates the regular file of that
  name; writing through \<open>fp\<close> sets the size of the file to the number of bytes written.
  A file this process has just created is one the system lets it remove.
\<close>

definition os_Create :: "env \<Rightarrow> disk \<Rightarrow> string \<Rightarrow> error option \<times> disk" where
  "os_Create env fs name =
     (case Create_err env of
        Some err \<Rightarrow> (Some err, fs)
      | None \<Rightarrow>
          (case find (\<lambda>e. fi_Name e = name) fs of
             None \<Rightarrow>
               (None, fs @ [\<lparr>fi_Name = name, fi_Size = 0, fi_IsRegular = True,
                             fi_ModTime = clock env, fi_locked = False\<rparr>])
           | Some e \<Rightarrow>
               if \<not> fi_IsRegular e then (Some ErrIsDir, fs)
               else (None, map (\<lambda>x. if fi_Name x = name
                                     then x\<lparr>fi_Size := 0, fi_ModTime := clock env\<rparr> else x) fs)))"

definition file_Write :: "env \<Rightarrow> disk \<Rightarrow> string \<Rightarrow> byte list \<Rightarrow> disk" where
  "file_Write env fs name bs =
     map (\<lambda>x. if fi_Name x = name
              then x\<lparr>fi_Size := word_of_nat (length bs), fi_ModTime := clock env\<rparr> else x) fs"

text \<open>The \<open>http.ResponseWriter\<close>, as a recorder of what the handler sends.\<close>

record ResponseWriter =
  status :: "nat option"
  content_type :: "string option"
  sent :: string

definition WriteHeader :: "ResponseWriter \<Rightarrow> nat \<Rightarrow> ResponseWriter" where
  "WriteHeader w code = (if status w = None then w\<lparr>status := Some code\<rparr> else w)"

definition Write :: "ResponseWriter \<Rightarrow> string \<Rightarrow> ResponseWriter" where
  "Write w bs = (WriteHeader w 200)\<lparr>sent := sent w @ bs\<rparr>"

text \<open>
  \<open>save\<close>. The deferred function runs on every return reached while \<open>fp\<close> is not
  \<open>nil\<close>: it closes the file and removes it, ignoring both results (\<open>cleanup\<close>).
\<close>

definition cleanup :: "disk \<Rightarrow> string \<Rightarrow> disk" where
  "cleanup fs name = snd (os_Remove fs name)"

definition save ::
  "env \<Rightarrow> string \<Rightarrow> disk \<Rightarrow> LimitedDir \<Rightarrow> int64 \<Rightarrow> ResponseWriter \<Rightarrow> byte list
     \<Rightarrow> error option \<times> disk \<times> LimitedDir \<times> ResponseWriter" where
  "save env imgURL fs imgDir maxImgSize w body =
     (case rand_Read env of
        Inl err \<Rightarrow> (Some err, fs, imgDir, w)
      | Inr buf \<Rightarrow>
          let name = Sprintf_x buf @ ''.png'';
              (err, fs1) = os_Create env fs name
          in if err \<noteq> None then (err, fs1, imgDir, w)
             else
               let (err, written) = fixImage env (LimitedReader body maxImgSize) 20;
                   fs2 = file_Write env fs1 name written
               in if err \<noteq> None then (err, cleanup fs2 name, imgDir, w)
                  else
                    (case Close_err env of
                       Some cerr \<Rightarrow> (Some cerr, cleanup fs2 name, imgDir, w)
                     | None \<Rightarrow>
                         let (err, fs3, imgDir') = Add fs2 imgDir name
                         in if err \<noteq> None then (err, fs3, imgDir', w)
                            else
                              let w1 = w\<lparr>content_type := Some ''image/png''\<rparr>
                              in case Encode_err env of
                                   Some jerr \<Rightarrow> (Some jerr, fs3, imgDir', w1)
                                 | None \<Rightarrow>
                                     (None, fs3, imgDir',
                                      Write w1 (json_Marshal env (imgURL @ name)))))"

text \<open>
  The handler of \<open>/save/\<close>. An instant is a number of nanoseconds; \<open>Time.Sub\<close> gives a
  \<open>Duration\<close>, an \<open>int64\<close>, and saturates at its ends.
\<close>

definition time_Sub :: "int \<Rightarrow> int \<Rightarrow> int64" where
  "time_Sub t u =
     (let d = t - u
      in if d > 2 ^ 63 - 1 then word_of_int (2 ^ 63 - 1)
         else if d < - (2 ^ 63) then word_of_int (- (2 ^ 63))
         else word_of_int d)"

record config =
  minDelay :: int64
  imgURL_c :: string
  maxImgSize_c :: int64

record server =
  lastTime :: int
  imgDir_s :: LimitedDir
  images :: disk

definition handler ::
  "env \<Rightarrow> config \<Rightarrow> int \<Rightarrow> ResponseWriter \<Rightarrow> byte list \<Rightarrow> server \<Rightarrow> ResponseWriter \<times> server" where
  "handler env cfg now w body s =
     (let seen = lastTime s
      in if time_Sub now seen <s minDelay cfg
         then (Write (WriteHeader w 429) ''rate limited'', s)
         else
           let s1 = s\<lparr>lastTime := now\<rparr>;
               (err, fs', d', w') = save env (imgURL_c cfg) (images s1) (imgDir_s s1)
                                      (maxImgSize_c cfg) w body;
               s2 = s1\<lparr>imgDir_s := d', images := fs'\<rparr>
           in case err of
                None \<Rightarrow> (w', s2)
              | Some e \<Rightarrow>
                  (Write (WriteHeader w' 500) (''could not save image: '' @ Error_text env e), s2))"

subsection \<open>The admission gate under concurrent requests\<close>

text \<open>
  The handler reads \<open>lastTime\<close> in one critical section of \<open>lastTimeMutex\<close>, compares
  on its own variables, and writes \<open>lastTime\<close> in a second critical section. A request
  in flight is at one of these points; \<open>request_step\<close> is its next atomic step, given
  the shared \<open>lastTime\<close>, and \<open>run_schedule\<close> lets the requests take steps in the
  order a schedule names them.
\<close>

datatype progress = Arrived | Loaded int | Admitted | Refused | Saving

record request =
  req_now :: int
  req_at :: progress

definition request_step :: "int64 \<Rightarrow> int \<Rightarrow> request \<Rightarrow> int \<times> request" where
  "request_step delay shared r =
     (case req_at r of
        Arrived \<Rightarrow> (shared, r\<lparr>req_at := Loaded shared\<rparr>)
      | Loaded seen \<Rightarrow>
          (shared, r\<lparr>req_at := (if time_Sub (req_now r) seen <s delay then Refused else Admitted)\<rparr>)
      | Admitted \<Rightarrow> (req_now r, r\<lparr>req_at := Saving\<rparr>)
      | Refused \<Rightarrow> (shared, r)
      | Saving \<Rightarrow> (shared, r))"

fun run_schedule :: "int64 \<Rightarrow> nat list \<Rightarrow> int \<times> request list \<Rightarrow> int \<times> request list" where
  "run_schedule delay [] st = st"
| "run_schedule delay (k # ks) (shared, rs) =
     (if k < length rs
      then let (shared', r') = request_step delay shared (rs ! k)
           in run_schedule delay ks (shared', rs[k := r'])
      else run_schedule delay ks (shared, rs))"

section \<open>Properties the theorems speak of\<close>

text \<open>The capacity condition of the specification.\<close>

definition within_limits :: "LimitedDir \<Rightarrow> bool" where
  "within_limits d \<longleftrightarrow>
     files d = [] \<or> (size_total d \<le>s maxSize d \<and> int (length (files d)) \<le> maxCount d)"

text \<open>The sum of the sizes of the tracked files, as the \<open>int64\<close> the program would compute.\<close>

definition tracked_sum :: "LimitedDir \<Rightarrow> int64" where
  "tracked_sum d = sum_list (map Size (files d))"

text \<open>
  The bookkeeping is sound when no tracked size is negative and the running total,
  read as a number, is at least the sum of the tracked sizes.
\<close>

definition sum_sizes :: "File list \<Rightarrow> int" where
  "sum_sizes fls = sum_list (map (\<lambda>f. sint (Size f)) fls)"

definition accounted :: "LimitedDir \<Rightarrow> bool" where
  "accounted d \<longleftrightarrow>
     (\<forall>f \<in> set (files d). 0 \<le> sint (Size f)) \<and> sum_sizes (files d) \<le> sint (size_total d)"

text \<open>Every tracked file is in the directory, under a name tracked once.\<close>

definition on_disk :: "disk \<Rightarrow> LimitedDir \<Rightarrow> bool" where
  "on_disk fs d \<longleftrightarrow>
     distinct (map Name (files d)) \<and>
     (\<forall>f \<in> set (files d). Name f \<noteq> [] \<and> Name f \<in> fi_Name ` set fs)"

text \<open>The regular files of a listing, as tracked entries: what the specification expects.\<close>

definition regular_files :: "FileInfo list \<Rightarrow> File list" where
  "regular_files entries =
     map (\<lambda>e. \<lparr>Name = fi_Name e, Size = fi_Size e\<rparr>) (filter fi_IsRegular entries)"

text \<open>The tracked entry that the scan of \<open>OpenLimitedDir\<close> leaves for a listed entry.\<close>

definition slot :: "FileInfo \<Rightarrow> File" where
  "slot e =
     (if fi_IsRegular e then \<lparr>Name = fi_Name e, Size = fi_Size e\<rparr> else \<lparr>Name = [], Size = 0\<rparr>)"

text \<open>A rectangle extended by \<open>p\<close> pixels on its four sides, and what the loops paint.\<close>

definition padded :: "Rectangle \<Rightarrow> int \<Rightarrow> Rectangle" where
  "padded r p = \<lparr>Min_pt = \<lparr>X = X (Min_pt r) - p, Y = Y (Min_pt r) - p\<rparr>,
                 Max_pt = \<lparr>X = X (Max_pt r) + p, Y = Y (Max_pt r) + p\<rparr>\<rparr>"

definition painted :: "Image \<Rightarrow> Rectangle \<Rightarrow> int \<Rightarrow> int \<Rightarrow> Color" where
  "painted src srcRect x y = (if Point_In x y srcRect then rgbaModel (At src x y) else white)"

section \<open>Concrete inputs\<close>

definition mkfile :: "string \<Rightarrow> int64 \<Rightarrow> int \<Rightarrow> FileInfo" where
  "mkfile n s t =
     \<lparr>fi_Name = n, fi_Size = s, fi_IsRegular = True, fi_ModTime = t, fi_locked = False\<rparr>"

definition subdir :: FileInfo where
  "subdir = \<lparr>fi_Name = ''sub'', fi_Size = 4096, fi_IsRegular = False, fi_ModTime = 1,
             fi_locked = False\<rparr>"

definition env_ok :: dir_env where
  "env_ok = \<lparr>MkdirAll_err = None, ReadDir_err = None\<rparr>"

text \<open>The store of the repository's test: at most 5 bytes and 4 files.\<close>

definition store0 :: LimitedDir where
  "store0 = \<lparr>path = ''images'', maxSize = 5, maxCount = 4, files = [], size_total = 0\<rparr>"

definition store_one :: LimitedDir where
  "store_one = \<lparr>path = ''images'', maxSize = 100, maxCount = 1,
                files = [\<lparr>Name = ''a'', Size = 3\<rparr>], size_total = 3\<rparr>"

definition store3 :: LimitedDir where
  "store3 = \<lparr>path = ''images'', maxSize = 100, maxCount = 3, files = [], size_total = 0\<rparr>"

definition pixel1 :: Image where
  "pixel1 = \<lparr>Bounds = \<lparr>Min_pt = \<lparr>X = 0, Y = 0\<rparr>, Max_pt = \<lparr>X = 1, Y = 1\<rparr>\<rparr>,
             At = (\<lambda>x y. NRGBA 255 128 0 128)\<rparr>"

definition env_bad :: env where
  "env_bad = \<lparr>rand_Read = Inr [1, 2, 3, 4, 5, 6, 7, 8, 9, 10, 11, 12, 13, 14, 15, 171],
              Create_err = None,
              png_Decode = (\<lambda>bs. Inl ErrFormat),
              png_Encode = (\<lambda>img. (None, [])),
              Close_err = None,
              json_Marshal = (\<lambda>p. p),
              Encode_err = None,
              Error_text = (\<lambda>e. ''error''),
              clock = 100\<rparr>"

definition w0 :: ResponseWriter where
  "w0 = \<lparr>status = None, content_type = None, sent = []\<rparr>"

definition cfg0 :: config where
  "cfg0 = \<lparr>minDelay = 5000000000, imgURL_c = ''/saved/'', maxImgSize_c = 10000000\<rparr>"

definition srv0 :: server where
  "srv0 = \<lparr>lastTime = 0, imgDir_s = store0, images = []\<rparr>"

definition two_requests :: "int \<times> request list" where
  "two_requests = (0, [\<lparr>req_now = 7000000000, req_at = Arrived\<rparr>,
                       \<lparr>req_now = 7000000000, req_at = Arrived\<rparr>])"

definition close_requests :: "int \<times> request list" where
  "close_requests = (0, [\<lparr>req_now = 7000000000, req_at = Arrived\<rparr>,
                         \<lparr>req_now = 7000000070, req_at = Arrived\<rparr>])"

definition fA :: FileInfo where
  "fA = mkfile ''A'' 10 1"

definition fB :: FileInfo where
  "fB = mkfile ''B'' 20 2"

definition fC :: FileInfo where
  "fC = mkfile ''C'' 30 3"

definition fD :: FileInfo where
  "fD = mkfile ''D'' 40 4"

section \<open>The eviction loop\<close>

lemma os_Remove_entry:
  "name \<noteq> [] \<Longrightarrow>
     os_Remove fs name =
       (case find (\<lambda>e. fi_Name e = name) fs of
          None \<Rightarrow> (Some ErrNotExist, fs)
        | Some e \<Rightarrow>
            if fi_locked e then (Some ErrPermission, fs)
            else (None, filter (\<lambda>e. fi_Name e \<noteq> name) fs))"
  by (simp add: os_Remove_def)

lemma shrink_stop: "\<not> over_limit d \<Longrightarrow> shrink fs d = (None, fs, d)"
  by (subst shrink.simps) simp

lemma shrink_panic:
  "over_limit d \<Longrightarrow> files d = [] \<Longrightarrow> shrink fs d = (Some PanicIndexOutOfRange, fs, d)"
  by (subst shrink.simps) simp

lemma shrink_removed:
  "over_limit d \<Longrightarrow> files d = f # rest \<Longrightarrow> os_Remove fs (Name f) = (None, fs1) \<Longrightarrow>
   shrink fs d = shrink fs1 (d\<lparr>size_total := size_total d - Size f, files := rest\<rparr>)"
  by (subst shrink.simps) (simp add: Let_def)

lemma shrink_absent:
  "over_limit d \<Longrightarrow> files d = f # rest \<Longrightarrow> os_Remove fs (Name f) = (Some ErrNotExist, fs1) \<Longrightarrow>
   shrink fs d = shrink fs1 (d\<lparr>files := rest\<rparr>)"
  by (subst shrink.simps) (simp add: Let_def os_IsNotExist_def)

lemma shrink_failed:
  "over_limit d \<Longrightarrow> files d = f # rest \<Longrightarrow> os_Remove fs (Name f) = (Some e, fs1) \<Longrightarrow>
   e \<noteq> ErrNotExist \<Longrightarrow> shrink fs d = (Some e, fs1, d)"
  by (subst shrink.simps) (simp add: Let_def os_IsNotExist_def)

text \<open>The five ways an iteration of the loop can go, as a case rule and as an induction rule.\<close>

lemma shrink_cases [consumes 0, case_names stop panic removed absent failed]:
  assumes "\<not> over_limit d \<Longrightarrow> P"
    and "over_limit d \<Longrightarrow> files d = [] \<Longrightarrow> P"
    and "\<And>f rest fs1. over_limit d \<Longrightarrow> files d = f # rest \<Longrightarrow> os_Remove fs (Name f) = (None, fs1) \<Longrightarrow> P"
    and "\<And>f rest fs1. over_limit d \<Longrightarrow> files d = f # rest \<Longrightarrow> os_Remove fs (Name f) = (Some ErrNotExist, fs1) \<Longrightarrow> P"
    and "\<And>f rest fs1 e. over_limit d \<Longrightarrow> files d = f # rest \<Longrightarrow> os_Remove fs (Name f) = (Some e, fs1) \<Longrightarrow> e \<noteq> ErrNotExist \<Longrightarrow> P"
  shows P
proof (cases "over_limit d")
  case False then show ?thesis by (rule assms(1))
next
  case True
  show ?thesis
  proof (cases "files d")
    case Nil with True show ?thesis by (rule assms(2))
  next
    case (Cons f rest)
    obtain err fs1 where r: "os_Remove fs (Name f) = (err, fs1)" by force
    show ?thesis
    proof (cases err)
      case None with True Cons r show ?thesis by (auto intro: assms(3))
    next
      case (Some e)
      with True Cons r show ?thesis by (cases "e = ErrNotExist") (auto intro: assms(4,5))
    qed
  qed
qed

lemma shrink_induct [consumes 0, case_names stop panic removed absent failed]:
  assumes "\<And>fs d. \<not> over_limit d \<Longrightarrow> P fs d"
    and "\<And>fs d. over_limit d \<Longrightarrow> files d = [] \<Longrightarrow> P fs d"
    and "\<And>fs d f rest fs1. over_limit d \<Longrightarrow> files d = f # rest \<Longrightarrow> os_Remove fs (Name f) = (None, fs1) \<Longrightarrow>
           P fs1 (d\<lparr>size_total := size_total d - Size f, files := rest\<rparr>) \<Longrightarrow> P fs d"
    and "\<And>fs d f rest fs1. over_limit d \<Longrightarrow> files d = f # rest \<Longrightarrow> os_Remove fs (Name f) = (Some ErrNotExist, fs1) \<Longrightarrow>
           P fs1 (d\<lparr>files := rest\<rparr>) \<Longrightarrow> P fs d"
    and "\<And>fs d f rest fs1 e. over_limit d \<Longrightarrow> files d = f # rest \<Longrightarrow> os_Remove fs (Name f) = (Some e, fs1) \<Longrightarrow> e \<noteq> ErrNotExist \<Longrightarrow> P fs d"
  shows "P fs d"
proof (induction n \<equiv> "length (files d)" arbitrary: fs d)
  case 0
  show ?case
  proof (cases rule: shrink_cases [where d = d and fs = fs])
    case stop then show ?thesis by (rule assms(1))
  next
    case panic then show ?thesis by (rule assms(2))
  next
    case (removed f rest fs1) with 0 show ?thesis by simp
  next
    case (absent f rest fs1) with 0 show ?thesis by simp
  next
    case (failed f rest fs1 e) then show ?thesis by (rule assms(5))
  qed
next
  case (Suc n)
  show ?case
  proof (cases rule: shrink_cases [where d = d and fs = fs])
    case stop then show ?thesis by (rule assms(1))
  next
    case panic then show ?thesis by (rule assms(2))
  next
    case (removed f rest fs1)
    with Suc.hyps(2) have "n = length (files (d\<lparr>size_total := size_total d - Size f, files := rest\<rparr>))" by simp
    from Suc.hyps(1)[OF this] removed show ?thesis by (rule assms(3)[rotated 3])
  next
    case (absent f rest fs1)
    with Suc.hyps(2) have "n = length (files (d\<lparr>files := rest\<rparr>))" by simp
    from Suc.hyps(1)[OF this] absent show ?thesis by (rule assms(4)[rotated 3])
  next
    case (failed f rest fs1 e) then show ?thesis by (rule assms(5))
  qed
qed

lemma shrink_limits:
  "shrink fs d = (None, fs', d') \<Longrightarrow>
     files d' = [] \<or> (size_total d' \<le>s maxSize d' \<and> int (length (files d')) \<le> maxCount d')"
proof (induction fs d rule: shrink_induct)
  case (stop fs d)
  then have "d' = d" by (simp add: shrink_stop)
  with stop(1) show ?case by (auto simp: over_limit_def word_sle_eq word_sless_alt)
next
  case (panic fs d) then show ?case by (simp add: shrink_panic)
next
  case (removed fs d f rest fs1) then show ?case by (simp add: shrink_removed)
next
  case (absent fs d f rest fs1) then show ?case by (simp add: shrink_absent)
next
  case (failed fs d f rest fs1 e) then show ?case by (simp add: shrink_failed)
qed

section \<open>Signed arithmetic without overflow\<close>

lemma sint_add_exact:
  fixes a b :: int64
  shows "- (2 ^ 63) \<le> sint a + sint b \<Longrightarrow> sint a + sint b < 2 ^ 63 \<Longrightarrow> sint (a + b) = sint a + sint b"
  by (simp add: sint_word_add signed_take_bit_int_eq_self)

lemma sint_diff_exact:
  fixes a b :: int64
  shows "- (2 ^ 63) \<le> sint a - sint b \<Longrightarrow> sint a - sint b < 2 ^ 63 \<Longrightarrow> sint (a - b) = sint a - sint b"
  by (simp add: sint_word_diff signed_take_bit_int_eq_self)

lemma sint64_lt: "sint (a :: int64) < 2 ^ 63"
  using sint_lt [of a] by simp

lemma sint64_ge: "- (2 ^ 63) \<le> sint (a :: int64)"
  using sint_ge [of a] by simp

lemma shrink_params:
  "shrink fs d = (err, fs', d') \<Longrightarrow>
     maxSize d' = maxSize d \<and> maxCount d' = maxCount d \<and> path d' = path d"
proof (induction fs d rule: shrink_induct)
  case (stop fs d) then show ?case by (auto simp: shrink_stop)
next
  case (panic fs d) then show ?case by (auto simp: shrink_panic)
next
  case (removed fs d f rest fs1) then show ?case by (simp add: shrink_removed)
next
  case (absent fs d f rest fs1) then show ?case by (simp add: shrink_absent)
next
  case (failed fs d f rest fs1 e) then show ?case by (auto simp: shrink_failed)
qed

lemma shrink_drop:
  "shrink fs d = (err, fs', d') \<Longrightarrow> \<exists>n. files d' = drop n (files d)"
proof (induction fs d rule: shrink_induct)
  case (stop fs d)
  then have "files d' = drop 0 (files d)" by (auto simp: shrink_stop)
  then show ?case ..
next
  case (panic fs d)
  then have "files d' = drop 0 (files d)" by (auto simp: shrink_panic)
  then show ?case ..
next
  case (removed fs d f rest fs1)
  then obtain n where "files d' = drop n rest" by (auto simp: shrink_removed)
  with removed(2) have "files d' = drop (Suc n) (files d)" by simp
  then show ?case ..
next
  case (absent fs d f rest fs1)
  then obtain n where "files d' = drop n rest" by (auto simp: shrink_absent)
  with absent(2) have "files d' = drop (Suc n) (files d)" by simp
  then show ?case ..
next
  case (failed fs d f rest fs1 e)
  then have "files d' = drop 0 (files d)" by (auto simp: shrink_failed)
  then show ?case ..
qed

lemma sum_sizes_nonneg:
  "\<forall>f \<in> set fls. 0 \<le> sint (Size f) \<Longrightarrow> 0 \<le> sum_sizes fls"
  by (induction fls) (auto simp: sum_sizes_def)

lemma sum_sizes_last:
  "fls \<noteq> [] \<Longrightarrow> \<forall>f \<in> set fls. 0 \<le> sint (Size f) \<Longrightarrow> sint (Size (last fls)) \<le> sum_sizes fls"
proof (induction fls)
  case Nil then show ?case by simp
next
  case (Cons f fls)
  show ?case
  proof (cases "fls = []")
    case True then show ?thesis by (simp add: sum_sizes_def)
  next
    case False
    with Cons have "sint (Size (last fls)) \<le> sum_sizes fls" by simp
    moreover from Cons.prems have "0 \<le> sint (Size f)" by simp
    ultimately show ?thesis using False by (simp add: sum_sizes_def)
  qed
qed

lemma shrink_evicts_oversized:
  "shrink fs d = (None, fs', d') \<Longrightarrow> accounted d \<Longrightarrow> files d \<noteq> [] \<Longrightarrow>
     maxSize d <s Size (last (files d)) \<Longrightarrow> files d' = []"
proof (induction fs d rule: shrink_induct)
  case (stop fs d)
  from stop(3,4) have "sint (Size (last (files d))) \<le> sint (size_total d)"
    using sum_sizes_last [of "files d"] by (auto simp: accounted_def)
  with stop(4,5) have "over_limit d" by (auto simp: over_limit_def word_sless_alt)
  with stop(1) show ?case by simp
next
  case (panic fs d) then show ?case by simp
next
  case (removed fs d f rest fs1)
  let ?d1 = "d\<lparr>size_total := size_total d - Size f, files := rest\<rparr>"
  from removed have run: "shrink fs1 ?d1 = (None, fs', d')" by (simp add: shrink_removed)
  show ?case
  proof (cases "rest = []")
    case True
    with shrink_drop [OF run] show ?thesis by simp
  next
    case False
    from removed(6,2) have nn: "\<forall>g \<in> set rest. 0 \<le> sint (Size g)" and f0: "0 \<le> sint (Size f)"
      and le: "sint (Size f) + sum_sizes rest \<le> sint (size_total d)"
      by (auto simp: accounted_def sum_sizes_def)
    have "0 \<le> sum_sizes rest" using nn by (rule sum_sizes_nonneg)
    with f0 le have "sint (size_total d - Size f) = sint (size_total d) - sint (Size f)"
      using sint64_lt [of "size_total d"] by (intro sint_diff_exact) auto
    with le nn have "accounted ?d1" by (simp add: accounted_def)
    moreover from False removed(2,8) have "maxSize ?d1 <s Size (last (files ?d1))" by simp
    ultimately show ?thesis using removed(4) run False by simp
  qed
next
  case (absent fs d f rest fs1)
  let ?d1 = "d\<lparr>files := rest\<rparr>"
  from absent have run: "shrink fs1 ?d1 = (None, fs', d')" by (simp add: shrink_absent)
  show ?case
  proof (cases "rest = []")
    case True
    with shrink_drop [OF run] show ?thesis by simp
  next
    case False
    from absent(6,2) have "accounted ?d1" by (auto simp: accounted_def sum_sizes_def)
    moreover from False absent(2,8) have "maxSize ?d1 <s Size (last (files ?d1))" by simp
    ultimately show ?thesis using absent(4) run False by simp
  qed
next
  case (failed fs d f rest fs1 e) then show ?case by (simp add: shrink_failed)
qed

lemma List_loop_map: "List_loop fls names = names @ map Name fls"
  by (induction fls arbitrary: names) auto

lemma List_names_map: "List_names d = map Name (files d)"
  by (simp add: List_names_def List_loop_map)

section \<open>LimitedDir: limits, order, registration\<close>

lemmas run_simps = Add_def os_Stat_def os_Remove_def os_IsNotExist_def over_limit_def
  word_sless_alt word_sle_eq mkfile_def shrink.simps

lemmas open_simps = OpenLimitedDir_def env_ok_def sort_Sort_def sort_insert_def Less_def
  scan_entries_def

lemma Open_limits:
  assumes "OpenLimitedDir env fs p ms mc = (None, fs', Some d')"
  shows "within_limits d'"
proof -
  obtain fls tot where sc: "scan_entries (sort_Sort fs) = (fls, tot)" by force
  let ?d = "\<lparr>path = p, maxSize = ms, maxCount = mc, files = fls, size_total = tot\<rparr>"
  obtain err fs1 d1 where sh: "shrink fs ?d = (err, fs1, d1)" by (cases "shrink fs ?d") auto
  from assms sc sh have "err = None" "d1 = d'"
    by (auto simp: OpenLimitedDir_def Let_def split: option.splits if_splits)
  with sh shrink_limits show ?thesis by (auto simp: within_limits_def)
qed

lemma Add_limits:
  assumes "Add fs d name = (None, fs', d')"
  shows "within_limits d'"
  using assms shrink_limits by (auto simp: Add_def within_limits_def split: sum.splits)

lemma Add_oversized:
  assumes acc: "accounted d" and st: "os_Stat fs name = Inr st"
    and nn: "0 \<le> sint (fi_Size st)" and nov: "sint (size_total d) + sint (fi_Size st) < 2 ^ 63"
    and big: "maxSize d <s fi_Size st" and run: "Add fs d name = (None, fs', d')"
  shows "files d' = []"
proof -
  let ?f = "\<lparr>Name = name, Size = fi_Size st\<rparr>"
  let ?d1 = "d\<lparr>files := files d @ [?f], size_total := size_total d + fi_Size st\<rparr>"
  from run st have sh: "shrink fs ?d1 = (None, fs', d')" by (simp add: Add_def)
  from acc have s0: "0 \<le> sum_sizes (files d)" by (auto simp: accounted_def intro: sum_sizes_nonneg)
  with acc have "0 \<le> sint (size_total d)" by (simp add: accounted_def)
  with nn nov have "sint (size_total d + fi_Size st) = sint (size_total d) + sint (fi_Size st)"
    by (intro sint_add_exact) auto
  with acc nn have "accounted ?d1" by (auto simp: accounted_def sum_sizes_def)
  moreover have "files ?d1 \<noteq> []" by simp
  moreover from big have "maxSize ?d1 <s Size (last (files ?d1))" by simp
  ultimately show ?thesis using sh by (rule shrink_evicts_oversized [rotated])
qed

lemma Add_appends:
  "os_Stat fs name = Inr st \<Longrightarrow>
     Add fs d name = shrink fs (d\<lparr>files := files d @ [\<lparr>Name = name, Size = fi_Size st\<rparr>],
                                  size_total := size_total d + fi_Size st\<rparr>)"
  by (simp add: Add_def)

lemma Add_fifo:
  assumes "os_Stat fs name = Inr st" and "Add fs d name = (err, fs', d')"
  shows "\<exists>n. files d' = drop n (files d @ [\<lparr>Name = name, Size = fi_Size st\<rparr>])"
  using assms shrink_drop [of fs "d\<lparr>files := files d @ [\<lparr>Name = name, Size = fi_Size st\<rparr>],
                                  size_total := size_total d + fi_Size st\<rparr>" err fs' d']
  by (simp add: Add_appends)

lemma Add_within:
  assumes "os_Stat fs name = Inr st"
    and "\<not> over_limit (d\<lparr>files := files d @ [\<lparr>Name = name, Size = fi_Size st\<rparr>],
                          size_total := size_total d + fi_Size st\<rparr>)"
  shows "Add fs d name = (None, fs, d\<lparr>files := files d @ [\<lparr>Name = name, Size = fi_Size st\<rparr>],
                          size_total := size_total d + fi_Size st\<rparr>)"
  using assms by (simp add: Add_appends shrink_stop)

lemma four_adds:
  assumes d0: "files d0 = []" "size_total d0 = 0" "maxCount d0 = 3"
    and stats: "os_Stat fsA A = Inr stA" "os_Stat fsB B = Inr stB"
      "os_Stat fsC C = Inr stC" "os_Stat fsD D = Inr stD"
    and nn: "0 \<le> sint (fi_Size stA)" "0 \<le> sint (fi_Size stB)"
      "0 \<le> sint (fi_Size stC)" "0 \<le> sint (fi_Size stD)"
    and room: "sint (fi_Size stA) + sint (fi_Size stB) + sint (fi_Size stC) + sint (fi_Size stD)
               \<le> sint (maxSize d0)"
    and runs: "Add fsA d0 A = (eA, fsA', dA)" "Add fsB dA B = (eB, fsB', dB)"
      "Add fsC dB C = (eC, fsC', dC)" "Add fsD dC D = (None, fsD', dD)"
  shows "files dD = [\<lparr>Name = B, Size = fi_Size stB\<rparr>, \<lparr>Name = C, Size = fi_Size stC\<rparr>,
                     \<lparr>Name = D, Size = fi_Size stD\<rparr>]"
proof -
  define a b c e where "a = fi_Size stA" and "b = fi_Size stB" and "c = fi_Size stC" and "e = fi_Size stD"
  define M where "M = sint (maxSize d0)"
  have M: "M < 2 ^ 63" unfolding M_def by (rule sint64_lt)
  note nn' = nn [folded a_def b_def c_def e_def]
  note room' = room [folded a_def b_def c_def e_def M_def]
  have ab: "sint (a + b) = sint a + sint b"
    using nn' room' M by (intro sint_add_exact) auto
  have abc: "sint (a + b + c) = sint a + sint b + sint c"
    using nn' room' M ab sint_add_exact [of "a + b" c] by auto
  have abce: "sint (a + b + c + e) = sint a + sint b + sint c + sint e"
    using nn' room' M abc sint_add_exact [of "a + b + c" e] by auto
  have bc: "sint (b + c) = sint b + sint c"
    using nn' room' M by (intro sint_add_exact) auto
  have bce: "sint (b + c + e) = sint b + sint c + sint e"
    using nn' room' M bc sint_add_exact [of "b + c" e] by auto
  let ?fA = "\<lparr>Name = A, Size = a\<rparr>" and ?fB = "\<lparr>Name = B, Size = b\<rparr>"
  let ?fC = "\<lparr>Name = C, Size = c\<rparr>" and ?fD = "\<lparr>Name = D, Size = e\<rparr>"
  have dA: "dA = d0\<lparr>files := [?fA], size_total := a\<rparr>"
    using Add_within [OF stats(1), of d0] runs(1) d0 nn' room'
    by (simp add: over_limit_def word_sless_alt M_def a_def)
  have dB: "dB = d0\<lparr>files := [?fA, ?fB], size_total := a + b\<rparr>"
    using Add_within [OF stats(2), of dA] runs(2) d0 nn' room' ab
    by (simp add: dA over_limit_def word_sless_alt M_def a_def b_def)
  have dC: "dC = d0\<lparr>files := [?fA, ?fB, ?fC], size_total := a + b + c\<rparr>"
    using Add_within [OF stats(3), of dB] runs(3) d0 nn' room' abc
    by (simp add: dB over_limit_def word_sless_alt M_def a_def b_def c_def)
  let ?d4 = "d0\<lparr>files := [?fA, ?fB, ?fC, ?fD], size_total := a + b + c + e\<rparr>"
  have run4: "shrink fsD ?d4 = (None, fsD', dD)"
    using runs(4) by (simp add: Add_appends [OF stats(4)] dC e_def)
  have over: "over_limit ?d4" by (simp add: over_limit_def d0)
  have fl: "files ?d4 = ?fA # [?fB, ?fC, ?fD]" by simp
  have stop1: "\<not> over_limit (?d4\<lparr>size_total := size_total ?d4 - Size ?fA, files := [?fB, ?fC, ?fD]\<rparr>)"
    using nn' room' bce by (simp add: over_limit_def d0 word_sless_alt M_def add.assoc)
  have stop2: "\<not> over_limit (?d4\<lparr>files := [?fB, ?fC, ?fD]\<rparr>)"
    using nn' room' abce by (simp add: over_limit_def d0 word_sless_alt M_def)
  obtain err fs1 where rm: "os_Remove fsD (Name ?fA) = (err, fs1)" by force
  have "files dD = [?fB, ?fC, ?fD]"
  proof (cases err)
    case None
    with rm have "shrink fsD ?d4 = shrink fs1 (?d4\<lparr>size_total := size_total ?d4 - Size ?fA, files := [?fB, ?fC, ?fD]\<rparr>)"
      by (intro shrink_removed [OF over fl]) simp
    with run4 stop1 show ?thesis by (auto simp: shrink_stop)
  next
    case (Some x)
    show ?thesis
    proof (cases "x = ErrNotExist")
      case True
      with Some rm have "shrink fsD ?d4 = shrink fs1 (?d4\<lparr>files := [?fB, ?fC, ?fD]\<rparr>)"
        by (intro shrink_absent [OF over fl]) simp
      with run4 stop2 show ?thesis by (auto simp: shrink_stop)
    next
      case False
      with Some rm have "shrink fsD ?d4 = (Some x, fs1, ?d4)"
        by (intro shrink_failed [OF over fl]) simp_all
      with run4 show ?thesis by simp
    qed
  qed
  then show ?thesis by (simp add: b_def c_def e_def)
qed

lemma store0_open: "OpenLimitedDir env_ok [] ''images'' 5 4 = (None, [], Some store0)"
  by (simp add: open_simps run_simps store0_def)

lemma store0_add6: "Add [mkfile ''10-6'' 6 1] store0 ''10-6'' = (None, [], store0)"
  by (simp add: run_simps store0_def)

text \<open>
  C1, as amended. After \<open>OpenLimitedDir\<close> returns a store, and after every \<open>Add\<close> that
  returns without error, at least one of the following holds: the tracked sequence is
  empty, or \<open>size_total \<le> maxSize\<close> and the count is at most \<open>maxCount\<close>. Moreover,
  when the bookkeeping is sound and the new total does not overflow, adding a file larger
  than \<open>maxSize\<close> leaves the store empty.
\<close>

theorem C1_limits:
  "(OpenLimitedDir env fs0 p ms mc = (None, fs1, Some d1) \<longrightarrow> within_limits d1) \<and>
   (Add fs d name = (None, fs', d') \<longrightarrow> within_limits d') \<and>
   (accounted d \<and> os_Stat fs name = Inr st \<and> 0 \<le> sint (fi_Size st) \<and>
      sint (size_total d) + sint (fi_Size st) < 2 ^ 63 \<and> maxSize d <s fi_Size st \<and>
      Add fs d name = (None, fs', d') \<longrightarrow> files d' = [])"
  using Open_limits Add_limits Add_oversized by blast

theorem C1_limits_witness:
  "OpenLimitedDir env_ok [] ''images'' 5 4 = (None, [], Some store0) \<and> within_limits store0 \<and>
   accounted store0 \<and> maxSize store0 <s 6 \<and>
   Add [mkfile ''10-6'' 6 1] store0 ''10-6'' = (None, [], store0) \<and> files store0 = []"
proof -
  have a: "accounted store0" by (simp add: accounted_def store0_def sum_sizes_def)
  have s: "os_Stat [mkfile ''10-6'' 6 1] ''10-6'' = Inr (mkfile ''10-6'' 6 1)"
    by (simp add: os_Stat_def mkfile_def)
  have h: "0 \<le> sint (fi_Size (mkfile ''10-6'' 6 1))"
    "sint (size_total store0) + sint (fi_Size (mkfile ''10-6'' 6 1)) < 2 ^ 63"
    "maxSize store0 <s fi_Size (mkfile ''10-6'' 6 1)"
    by (simp_all add: mkfile_def store0_def word_sless_alt)
  have m: "maxSize store0 <s 6" by (simp add: store0_def word_sless_alt)
  from C1_limits [where env = env_ok and p = "''images''" and ms = 5 and mc = 4
      and d = store0 and fs = "[mkfile ''10-6'' 6 1]" and name = "''10-6''"
      and st = "mkfile ''10-6'' 6 1" and fs' = "[]" and d' = store0, of "[]" "[]" store0]
    store0_open store0_add6 a s h m
  show ?thesis by blast
qed

text \<open>
  C1 as stated says that exactly one of the two conditions holds. The store opened on
  an empty directory with the limits of the repository's test is empty and is within
  both limits.
\<close>

theorem C1_counterexample:
  "OpenLimitedDir env_ok [] ''images'' 5 4 = (None, [], Some store0) \<and>
   \<not> ((files store0 = []) \<noteq>
        (size_total store0 \<le>s maxSize store0 \<and> int (length (files store0)) \<le> maxCount store0))"
  by (simp add: open_simps run_simps store0_def)

text \<open>
  C2. The running total is meant to be the sum of the sizes of the tracked files. It is
  not after an eviction that meets a file already gone from the disk: the store opened on
  a directory holding \<open>a\<close> (3 bytes) tracks it; \<open>a\<close> is then deleted by someone else, and
  \<open>b\<close> (2 bytes) is written and added. The loop drops the entry of \<open>a\<close> without
  subtracting its size: one file of 2 bytes is tracked, and the total says 5.
\<close>

theorem C2_absent_file_keeps_its_size:
  "OpenLimitedDir env_ok [mkfile ''a'' 3 1] ''images'' 100 1 = (None, [mkfile ''a'' 3 1], Some store_one) \<and>
   Add [mkfile ''b'' 2 2] store_one ''b'' =
     (None, [mkfile ''b'' 2 2], store_one\<lparr>files := [\<lparr>Name = ''b'', Size = 2\<rparr>], size_total := 5\<rparr>) \<and>
   tracked_sum (store_one\<lparr>files := [\<lparr>Name = ''b'', Size = 2\<rparr>], size_total := 5\<rparr>) = 2 \<and>
   size_total (store_one\<lparr>files := [\<lparr>Name = ''b'', Size = 2\<rparr>], size_total := 5\<rparr>)
     \<noteq> tracked_sum (store_one\<lparr>files := [\<lparr>Name = ''b'', Size = 2\<rparr>], size_total := 5\<rparr>)"
  by (simp add: open_simps run_simps store_one_def tracked_sum_def)

text \<open>
  C3. The store is first in, first out: whatever \<open>Add\<close> returns, the tracked
  sequence is then the old one with the new entry at its end, less some entries at its
  front; the loop alone only removes from the front; \<open>List\<close> gives the names in the
  order of the sequence. With \<open>maxCount = 3\<close> and \<open>maxSize\<close> at least the combined
  size of four files, adding \<open>A\<close>, \<open>B\<close>, \<open>C\<close>, \<open>D\<close> to the empty store leaves exactly
  \<open>B\<close>, \<open>C\<close>, \<open>D\<close>, in that order, whenever the fourth \<open>Add\<close> returns without error.
\<close>

theorem C3_fifo_order:
  "(os_Stat fs name = Inr st \<and> Add fs d name = (err, fs', d') \<longrightarrow>
      (\<exists>n. files d' = drop n (files d @ [\<lparr>Name = name, Size = fi_Size st\<rparr>]))) \<and>
   (shrink fs d = (err, fs', d') \<longrightarrow> (\<exists>n. files d' = drop n (files d))) \<and>
   List_names d = map Name (files d) \<and>
   (files ini = [] \<and> size_total ini = 0 \<and> maxCount ini = 3 \<and>
    os_Stat fsA A = Inr stA \<and> os_Stat fsB B = Inr stB \<and>
    os_Stat fsC C = Inr stC \<and> os_Stat fsD D = Inr stD \<and>
    0 \<le> sint (fi_Size stA) \<and> 0 \<le> sint (fi_Size stB) \<and>
    0 \<le> sint (fi_Size stC) \<and> 0 \<le> sint (fi_Size stD) \<and>
    sint (fi_Size stA) + sint (fi_Size stB) + sint (fi_Size stC) + sint (fi_Size stD)
      \<le> sint (maxSize ini) \<and>
    Add fsA ini A = (eA, fsA', dA) \<and> Add fsB dA B = (eB, fsB', dB) \<and>
    Add fsC dB C = (eC, fsC', dC) \<and> Add fsD dC D = (None, fsD', dD) \<longrightarrow>
      files dD = [\<lparr>Name = B, Size = fi_Size stB\<rparr>, \<lparr>Name = C, Size = fi_Size stC\<rparr>,
                  \<lparr>Name = D, Size = fi_Size stD\<rparr>] \<and>
      List_names dD = [B, C, D])"
proof (intro conjI impI)
  assume "os_Stat fs name = Inr st \<and> Add fs d name = (err, fs', d')"
  then show "\<exists>n. files d' = drop n (files d @ [\<lparr>Name = name, Size = fi_Size st\<rparr>])"
    using Add_fifo by blast
next
  assume "shrink fs d = (err, fs', d')"
  then show "\<exists>n. files d' = drop n (files d)" by (rule shrink_drop)
next
  show "List_names d = map Name (files d)" by (rule List_names_map)
next
  assume h: "files ini = [] \<and> size_total ini = 0 \<and> maxCount ini = 3 \<and>
    os_Stat fsA A = Inr stA \<and> os_Stat fsB B = Inr stB \<and>
    os_Stat fsC C = Inr stC \<and> os_Stat fsD D = Inr stD \<and>
    0 \<le> sint (fi_Size stA) \<and> 0 \<le> sint (fi_Size stB) \<and>
    0 \<le> sint (fi_Size stC) \<and> 0 \<le> sint (fi_Size stD) \<and>
    sint (fi_Size stA) + sint (fi_Size stB) + sint (fi_Size stC) + sint (fi_Size stD)
      \<le> sint (maxSize ini) \<and>
    Add fsA ini A = (eA, fsA', dA) \<and> Add fsB dA B = (eB, fsB', dB) \<and>
    Add fsC dB C = (eC, fsC', dC) \<and> Add fsD dC D = (None, fsD', dD)"
  then show f: "files dD = [\<lparr>Name = B, Size = fi_Size stB\<rparr>, \<lparr>Name = C, Size = fi_Size stC\<rparr>,
                  \<lparr>Name = D, Size = fi_Size stD\<rparr>]"
    by (intro four_adds [of ini fsA A stA fsB B stB fsC C stC fsD D stD eA fsA' dA eB fsB' dB eC fsC' dC fsD' dD]) simp_all
  then show "List_names dD = [B, C, D]" by (simp add: List_names_map)
qed

theorem C3_fifo_order_witness:
  "Add [fA] store3 ''A'' = (None, [fA], store3\<lparr>files := [\<lparr>Name = ''A'', Size = 10\<rparr>], size_total := 10\<rparr>) \<and>
   Add [fA, fB, fC, fD]
     (store3\<lparr>files := [\<lparr>Name = ''A'', Size = 10\<rparr>, \<lparr>Name = ''B'', Size = 20\<rparr>, \<lparr>Name = ''C'', Size = 30\<rparr>],
             size_total := 60\<rparr>) ''D'' =
     (None, [fB, fC, fD],
      store3\<lparr>files := [\<lparr>Name = ''B'', Size = 20\<rparr>, \<lparr>Name = ''C'', Size = 30\<rparr>, \<lparr>Name = ''D'', Size = 40\<rparr>],
             size_total := 90\<rparr>) \<and>
   List_names (store3\<lparr>files := [\<lparr>Name = ''B'', Size = 20\<rparr>, \<lparr>Name = ''C'', Size = 30\<rparr>, \<lparr>Name = ''D'', Size = 40\<rparr>],
             size_total := 90\<rparr>) = [''B'', ''C'', ''D'']"
proof -
  let ?dA = "store3\<lparr>files := [\<lparr>Name = ''A'', Size = 10\<rparr>], size_total := 10\<rparr>"
  let ?dB = "store3\<lparr>files := [\<lparr>Name = ''A'', Size = 10\<rparr>, \<lparr>Name = ''B'', Size = 20\<rparr>], size_total := 30\<rparr>"
  let ?dC = "store3\<lparr>files := [\<lparr>Name = ''A'', Size = 10\<rparr>, \<lparr>Name = ''B'', Size = 20\<rparr>, \<lparr>Name = ''C'', Size = 30\<rparr>],
             size_total := 60\<rparr>"
  let ?dD = "store3\<lparr>files := [\<lparr>Name = ''B'', Size = 20\<rparr>, \<lparr>Name = ''C'', Size = 30\<rparr>, \<lparr>Name = ''D'', Size = 40\<rparr>],
             size_total := 90\<rparr>"
  have ini: "files store3 = [] \<and> size_total store3 = 0 \<and> maxCount store3 = 3"
    by (simp add: store3_def)
  have stats: "os_Stat [fA] ''A'' = Inr fA" "os_Stat [fA, fB] ''B'' = Inr fB"
    "os_Stat [fA, fB, fC] ''C'' = Inr fC" "os_Stat [fA, fB, fC, fD] ''D'' = Inr fD"
    by (simp_all add: os_Stat_def fA_def fB_def fC_def fD_def mkfile_def)
  have sizes: "0 \<le> sint (fi_Size fA) \<and> 0 \<le> sint (fi_Size fB) \<and> 0 \<le> sint (fi_Size fC) \<and> 0 \<le> sint (fi_Size fD) \<and>
    sint (fi_Size fA) + sint (fi_Size fB) + sint (fi_Size fC) + sint (fi_Size fD) \<le> sint (maxSize store3)"
    by (simp add: fA_def fB_def fC_def fD_def mkfile_def store3_def)
  have runs: "Add [fA] store3 ''A'' = (None, [fA], ?dA)" "Add [fA, fB] ?dA ''B'' = (None, [fA, fB], ?dB)"
    "Add [fA, fB, fC] ?dB ''C'' = (None, [fA, fB, fC], ?dC)"
    "Add [fA, fB, fC, fD] ?dC ''D'' = (None, [fB, fC, fD], ?dD)"
    by (simp_all add: run_simps store3_def fA_def fB_def fC_def fD_def)
  from C3_fifo_order [where ini = store3 and fsA = "[fA]" and A = "''A''" and stA = fA
      and fsB = "[fA, fB]" and B = "''B''" and stB = fB
      and fsC = "[fA, fB, fC]" and C = "''C''" and stC = fC
      and fsD = "[fA, fB, fC, fD]" and D = "''D''" and stD = fD
      and eA = None and fsA' = "[fA]" and dA = ?dA and eB = None and fsB' = "[fA, fB]" and dB = ?dB
      and eC = None and fsC' = "[fA, fB, fC]" and dC = ?dC and fsD' = "[fB, fC, fD]" and dD = ?dD]
    ini stats sizes runs
  have "List_names ?dD = [''B'', ''C'', ''D'']" by blast
  with runs show ?thesis by simp
qed

text \<open>
  C4. The tracked sequence built by \<open>OpenLimitedDir\<close> is meant to hold the regular
  files only. A directory that holds one subdirectory and no regular file gives a tracked
  sequence of one entry, with the empty name and the size 0, which \<open>List\<close> reports.
\<close>

theorem C4_directory_entry_is_tracked:
  "regular_files (sort_Sort [subdir]) = [] \<and>
   scan_entries (sort_Sort [subdir]) = ([\<lparr>Name = [], Size = 0\<rparr>], 0) \<and>
   OpenLimitedDir env_ok [subdir] ''images'' 5 4 =
     (None, [subdir], Some (store0\<lparr>files := [\<lparr>Name = [], Size = 0\<rparr>]\<rparr>)) \<and>
   List_names (store0\<lparr>files := [\<lparr>Name = [], Size = 0\<rparr>]\<rparr>) = ['''']"
  by (simp add: open_simps run_simps store0_def subdir_def regular_files_def List_names_def)

section \<open>Add: a missing file, a name already tracked\<close>

lemma os_Stat_absent: "name \<notin> fi_Name ` set fs \<Longrightarrow> os_Stat fs name = Inl ErrNotExist"
proof -
  assume "name \<notin> fi_Name ` set fs"
  then have "find (\<lambda>e. fi_Name e = name) fs = None" by (auto simp: find_None_iff)
  then show ?thesis by (simp add: os_Stat_def)
qed

lemma os_Stat_present:
  assumes "name \<in> fi_Name ` set fs"
  shows "\<exists>st. os_Stat fs name = Inr st \<and> st \<in> set fs \<and> fi_Name st = name"
proof (cases "find (\<lambda>e. fi_Name e = name) fs")
  case None
  with assms show ?thesis by (auto simp: find_None_iff)
next
  case (Some st)
  then have "st \<in> set fs" "fi_Name st = name" by (auto simp: find_Some_iff)
  with Some show ?thesis by (simp add: os_Stat_def)
qed

lemma Add_stat_fails: "os_Stat fs name = Inl e \<Longrightarrow> Add fs d name = (Some e, fs, d)"
  by (simp add: Add_def)

text \<open>
  C9. \<open>Add\<close> stats the file and, whenever the stat fails, returns its error and leaves
  the directory and the store as they were: nothing is registered. For a plain name that
  is not in the directory the stat fails with "does not exist"; for a plain name that is
  in the directory, the size registered is the one the stat reads from the disk.
\<close>

theorem C9_Add_of_a_missing_file:
  "(os_Stat fs name = Inl e \<longrightarrow> Add fs d name = (Some e, fs, d)) \<and>
   (plain_name name \<and> name \<notin> fi_Name ` set fs \<longrightarrow>
      Add fs d name = (Some ErrNotExist, fs, d)) \<and>
   (plain_name name \<and> name \<in> fi_Name ` set fs \<longrightarrow>
      (\<exists>st. st \<in> set fs \<and> fi_Name st = name \<and>
         Add fs d name =
           shrink fs (d\<lparr>files := files d @ [\<lparr>Name = name, Size = fi_Size st\<rparr>],
                        size_total := size_total d + fi_Size st\<rparr>)))"
  using os_Stat_absent [of name fs] os_Stat_present [of name fs] Add_stat_fails [of fs name]
    Add_appends [of fs name]
  by (metis Add_stat_fails)

theorem C9_Add_of_a_missing_file_witness:
  "plain_name ''b'' \<and> ''b'' \<notin> fi_Name ` set [mkfile ''a'' 3 1] \<and>
   os_Stat [mkfile ''a'' 3 1] ''b'' = Inl ErrNotExist \<and>
   Add [mkfile ''a'' 3 1] store_one ''b'' = (Some ErrNotExist, [mkfile ''a'' 3 1], store_one) \<and>
   plain_name ''a'' \<and> ''a'' \<in> fi_Name ` set [mkfile ''a'' 3 1]"
proof -
  have p: "plain_name ''b''" "plain_name ''a''" by (simp_all add: plain_name_def)
  have n: "''b'' \<notin> fi_Name ` set [mkfile ''a'' 3 1]" "''a'' \<in> fi_Name ` set [mkfile ''a'' 3 1]"
    by (simp_all add: mkfile_def)
  have st: "os_Stat [mkfile ''a'' 3 1] ''b'' = Inl ErrNotExist"
    by (simp add: os_Stat_def mkfile_def)
  from C9_Add_of_a_missing_file [where name = "''b''" and fs = "[mkfile ''a'' 3 1]" and d = store_one
      and e = ErrNotExist] p n st
  show ?thesis by blast
qed

text \<open>
  C10. \<open>Add\<close> of a name that is already tracked has no branch of its own: the entry
  is appended and its size added, as for a new name. When that does not exceed a limit,
  the store holds one entry more for that name, at least two, and the total has grown by
  the size read from the disk.
\<close>

theorem C10_tracked_name_added_again:
  "name \<in> Name ` set (files d) \<and> os_Stat fs name = Inr st \<longrightarrow>
     Add fs d name =
       shrink fs (d\<lparr>files := files d @ [\<lparr>Name = name, Size = fi_Size st\<rparr>],
                    size_total := size_total d + fi_Size st\<rparr>) \<and>
     (\<not> over_limit (d\<lparr>files := files d @ [\<lparr>Name = name, Size = fi_Size st\<rparr>],
                      size_total := size_total d + fi_Size st\<rparr>) \<longrightarrow>
        (\<exists>d'. Add fs d name = (None, fs, d') \<and>
           files d' = files d @ [\<lparr>Name = name, Size = fi_Size st\<rparr>] \<and>
           size_total d' = size_total d + fi_Size st \<and>
           length (files d') = length (files d) + 1 \<and>
           length (filter (\<lambda>f. Name f = name) (files d')) =
             length (filter (\<lambda>f. Name f = name) (files d)) + 1 \<and>
           2 \<le> length (filter (\<lambda>f. Name f = name) (files d'))))"
proof (intro impI conjI)
  assume h: "name \<in> Name ` set (files d) \<and> os_Stat fs name = Inr st"
  then show "Add fs d name =
       shrink fs (d\<lparr>files := files d @ [\<lparr>Name = name, Size = fi_Size st\<rparr>],
                    size_total := size_total d + fi_Size st\<rparr>)"
    by (simp add: Add_appends)
next
  let ?d' = "d\<lparr>files := files d @ [\<lparr>Name = name, Size = fi_Size st\<rparr>],
                      size_total := size_total d + fi_Size st\<rparr>"
  assume h: "name \<in> Name ` set (files d) \<and> os_Stat fs name = Inr st" and ok: "\<not> over_limit ?d'"
  from h have "filter (\<lambda>f. Name f = name) (files d) \<noteq> []"
    by (auto simp: filter_empty_conv)
  then have "1 \<le> length (filter (\<lambda>f. Name f = name) (files d))"
    by (cases "filter (\<lambda>f. Name f = name) (files d)") auto
  moreover from h ok have "Add fs d name = (None, fs, ?d')" by (simp add: Add_within)
  ultimately show "\<exists>d'. Add fs d name = (None, fs, d') \<and>
           files d' = files d @ [\<lparr>Name = name, Size = fi_Size st\<rparr>] \<and>
           size_total d' = size_total d + fi_Size st \<and>
           length (files d') = length (files d) + 1 \<and>
           length (filter (\<lambda>f. Name f = name) (files d')) =
             length (filter (\<lambda>f. Name f = name) (files d)) + 1 \<and>
           2 \<le> length (filter (\<lambda>f. Name f = name) (files d'))"
    by (intro exI [of _ ?d']) simp
qed

theorem C10_tracked_name_added_again_witness:
  "''a'' \<in> Name ` set (files (store0\<lparr>files := [\<lparr>Name = ''a'', Size = 1\<rparr>], size_total := 1\<rparr>)) \<and>
   os_Stat [mkfile ''a'' 1 1] ''a'' = Inr (mkfile ''a'' 1 1) \<and>
   Add [mkfile ''a'' 1 1] (store0\<lparr>files := [\<lparr>Name = ''a'', Size = 1\<rparr>], size_total := 1\<rparr>) ''a'' =
     (None, [mkfile ''a'' 1 1],
      store0\<lparr>files := [\<lparr>Name = ''a'', Size = 1\<rparr>, \<lparr>Name = ''a'', Size = 1\<rparr>], size_total := 2\<rparr>)"
proof -
  let ?d = "store0\<lparr>files := [\<lparr>Name = ''a'', Size = 1\<rparr>], size_total := 1\<rparr>"
  have h: "''a'' \<in> Name ` set (files ?d) \<and> os_Stat [mkfile ''a'' 1 1] ''a'' = Inr (mkfile ''a'' 1 1)"
    by (simp add: os_Stat_def mkfile_def)
  have ok: "\<not> over_limit (?d\<lparr>files := files ?d @ [\<lparr>Name = ''a'', Size = fi_Size (mkfile ''a'' 1 1)\<rparr>],
                      size_total := size_total ?d + fi_Size (mkfile ''a'' 1 1)\<rparr>)"
    by (simp add: over_limit_def store0_def mkfile_def word_sless_alt)
  from C10_tracked_name_added_again [where name = "''a''" and d = ?d and fs = "[mkfile ''a'' 1 1]"
      and st = "mkfile ''a'' 1 1"] h ok
  obtain d' where "Add [mkfile ''a'' 1 1] ?d ''a'' = (None, [mkfile ''a'' 1 1], d')"
    "files d' = files ?d @ [\<lparr>Name = ''a'', Size = fi_Size (mkfile ''a'' 1 1)\<rparr>]"
    "size_total d' = size_total ?d + fi_Size (mkfile ''a'' 1 1)"
    by blast
  moreover have "Add [mkfile ''a'' 1 1] ?d ''a'' =
     (None, [mkfile ''a'' 1 1],
      store0\<lparr>files := [\<lparr>Name = ''a'', Size = 1\<rparr>, \<lparr>Name = ''a'', Size = 1\<rparr>], size_total := 2\<rparr>)"
    by (simp add: run_simps store0_def)
  ultimately show ?thesis using h by simp
qed

section \<open>OpenLimitedDir: the scan and the order\<close>

text \<open>
  The scan gives one tracked entry for each listed entry, in the order of the listing:
  the name and size of a regular file, the zero \<open>File\<close> for any other entry. The total
  is the sum of the sizes of the regular files, which is the sum of the tracked sizes.
\<close>

lemma scan_loop_eq:
  "scan_loop es (length pre) (pre @ replicate (length es) \<lparr>Name = [], Size = 0\<rparr>) tot =
     (pre @ map slot es, tot + sum_list (map fi_Size (filter fi_IsRegular es)))"
proof (induction es arbitrary: pre tot)
  case Nil
  then show ?case by simp
next
  case (Cons e es)
  let ?z = "\<lparr>Name = [], Size = 0\<rparr> :: File"
  have shape: "pre @ replicate (length (e # es)) ?z = pre @ ?z # replicate (length es) ?z" by simp
  show ?case
  proof (cases "fi_IsRegular e")
    case False
    have "scan_loop (e # es) (length pre) (pre @ replicate (length (e # es)) ?z) tot =
          scan_loop es (length (pre @ [?z])) ((pre @ [?z]) @ replicate (length es) ?z) tot"
      using False by simp
    also note Cons.IH [of "pre @ [?z]" tot]
    finally show ?thesis using False by (simp add: slot_def)
  next
    case True
    let ?f = "\<lparr>Name = fi_Name e, Size = fi_Size e\<rparr>"
    have upd: "(pre @ ?z # replicate (length es) ?z)[length pre := ?f] = pre @ ?f # replicate (length es) ?z"
      by (simp add: list_update_append)
    have "scan_loop (e # es) (length pre) (pre @ replicate (length (e # es)) ?z) tot =
          scan_loop es (length (pre @ [?f])) ((pre @ [?f]) @ replicate (length es) ?z) (tot + fi_Size e)"
      using True unfolding shape by (simp add: Let_def upd nth_append)
    also note Cons.IH [of "pre @ [?f]" "tot + fi_Size e"]
    finally show ?thesis using True by (simp add: slot_def add.assoc)
  qed
qed

lemma scan_entries_eq:
  "scan_entries es = (map slot es, sum_list (map fi_Size (filter fi_IsRegular es)))"
  using scan_loop_eq [of es "[]" 0] by (simp add: scan_entries_def)

lemma sum_list_slot:
  "sum_list (map (Size \<circ> slot) es) = sum_list (map fi_Size (filter fi_IsRegular es))"
  by (induction es) (auto simp: slot_def)

lemma scan_entries_total:
  "scan_entries es = (fls, tot) \<Longrightarrow> tot = sum_list (map Size fls)"
  by (auto simp: scan_entries_eq sum_list_slot)

lemma scan_entries_regular:
  "list_all fi_IsRegular es \<Longrightarrow> fst (scan_entries es) = regular_files es"
  by (induction es) (auto simp: scan_entries_eq regular_files_def slot_def)

lemma scan_entries_length: "length (fst (scan_entries es)) = length es"
  by (simp add: scan_entries_eq)

text \<open>The model of \<open>sort.Sort\<close> sorts by modification time and keeps the entries.\<close>

lemma mset_sort_insert: "mset (sort_insert e es) = add_mset e (mset es)"
proof -
  have "mset (takeWhile (\<lambda>x. \<not> Less e x) es) + mset (dropWhile (\<lambda>x. \<not> Less e x) es) = mset es"
    by (metis mset_append takeWhile_dropWhile_id)
  then show ?thesis by (simp add: sort_insert_def)
qed

lemma sorted_sort_insert:
  "sorted (map fi_ModTime es) \<Longrightarrow> sorted (map fi_ModTime (sort_insert e es))"
proof (induction es)
  case Nil
  then show ?case by (simp add: sort_insert_def)
next
  case (Cons x es)
  show ?case
  proof (cases "Less e x")
    case True
    with Cons.prems show ?thesis by (auto simp: sort_insert_def Less_def)
  next
    case False
    then have step: "sort_insert e (x # es) = x # sort_insert e es"
      by (simp add: sort_insert_def)
    from Cons have ih: "sorted (map fi_ModTime (sort_insert e es))" by simp
    have "set (sort_insert e es) = insert e (set es)"
      using mset_sort_insert [of e es] by (metis set_mset_add_mset_insert set_mset_mset)
    moreover from False have "fi_ModTime x \<le> fi_ModTime e" by (auto simp: Less_def)
    moreover from Cons.prems have "\<forall>y \<in> set es. fi_ModTime x \<le> fi_ModTime y" by simp
    ultimately have "\<forall>y \<in> set (sort_insert e es). fi_ModTime x \<le> fi_ModTime y" by simp
    with ih show ?thesis unfolding step by simp
  qed
qed

lemma foldl_sort_insert:
  "mset (foldl (\<lambda>acc e. sort_insert e acc) acc es) = mset acc + mset es \<and>
   (sorted (map fi_ModTime acc) \<longrightarrow> sorted (map fi_ModTime (foldl (\<lambda>acc e. sort_insert e acc) acc es)))"
  by (induction es arbitrary: acc) (auto simp: mset_sort_insert sorted_sort_insert)

lemma sort_Sort_sorted: "sorted (map fi_ModTime (sort_Sort es))"
  using foldl_sort_insert [of "[]" es] by (simp add: sort_Sort_def)

lemma sort_Sort_mset: "mset (sort_Sort es) = mset es"
  using foldl_sort_insert [of "[]" es] by (simp add: sort_Sort_def)

section \<open>The bookkeeping stays sound\<close>

text \<open>
  As long as sizes are not negative and no sum leaves the range of \<open>int64\<close>, the
  running total is at least the sum of the tracked sizes, from \<open>OpenLimitedDir\<close> on and
  through every \<open>Add\<close>, whatever it returns.
\<close>

lemma accounted_removed:
  assumes "accounted d" and "files d = f # rest"
  shows "accounted (d\<lparr>size_total := size_total d - Size f, files := rest\<rparr>)"
proof -
  from assms have nn: "\<forall>g \<in> set rest. 0 \<le> sint (Size g)" and f0: "0 \<le> sint (Size f)"
    and le: "sint (Size f) + sum_sizes rest \<le> sint (size_total d)"
    by (auto simp: accounted_def sum_sizes_def)
  have "0 \<le> sum_sizes rest" using nn by (rule sum_sizes_nonneg)
  with f0 le have "sint (size_total d - Size f) = sint (size_total d) - sint (Size f)"
    using sint64_lt [of "size_total d"] by (intro sint_diff_exact) auto
  with le nn show ?thesis by (simp add: accounted_def)
qed

lemma accounted_absent:
  assumes "accounted d" and "files d = f # rest"
  shows "accounted (d\<lparr>files := rest\<rparr>)"
  using assms by (auto simp: accounted_def sum_sizes_def)

lemma shrink_accounted:
  "shrink fs d = (err, fs', d') \<Longrightarrow> accounted d \<Longrightarrow> accounted d'"
proof (induction fs d rule: shrink_induct)
  case (stop fs d) then show ?case by (auto simp: shrink_stop)
next
  case (panic fs d) then show ?case by (auto simp: shrink_panic)
next
  case (removed fs d f rest fs1)
  then show ?case by (simp add: shrink_removed accounted_removed)
next
  case (absent fs d f rest fs1)
  then show ?case by (simp add: shrink_absent accounted_absent)
next
  case (failed fs d f rest fs1 e) then show ?case by (auto simp: shrink_failed)
qed

lemma accounted_appended:
  assumes acc: "accounted d" and nn: "0 \<le> sint sz" and nov: "sint (size_total d) + sint sz < 2 ^ 63"
  shows "accounted (d\<lparr>files := files d @ [\<lparr>Name = name, Size = sz\<rparr>], size_total := size_total d + sz\<rparr>)"
proof -
  from acc have "0 \<le> sum_sizes (files d)" by (auto simp: accounted_def intro: sum_sizes_nonneg)
  with acc have "0 \<le> sint (size_total d)" by (simp add: accounted_def)
  with nn nov have "sint (size_total d + sz) = sint (size_total d) + sint sz"
    by (intro sint_add_exact) auto
  with acc nn show ?thesis by (auto simp: accounted_def sum_sizes_def)
qed

lemma Add_accounted:
  assumes "accounted d" and "os_Stat fs name = Inr st" and "0 \<le> sint (fi_Size st)"
    and "sint (size_total d) + sint (fi_Size st) < 2 ^ 63" and "Add fs d name = (err, fs', d')"
  shows "accounted d'"
  using assms shrink_accounted accounted_appended by (auto simp: Add_appends)

lemma sint_sum_list:
  fixes xs :: "int64 list"
  assumes "\<forall>x \<in> set xs. 0 \<le> sint x" and "sum_list (map sint xs) < 2 ^ 63"
  shows "sint (sum_list xs) = sum_list (map sint xs)"
  using assms
proof (induction xs)
  case Nil
  then show ?case by simp
next
  case (Cons x xs)
  from Cons.prems(1) have nn: "0 \<le> sum_list (map sint xs)"
    by (intro sum_list_nonneg) auto
  with Cons have ih: "sint (sum_list xs) = sum_list (map sint xs)" by simp
  from Cons.prems have x0: "0 \<le> sint x" and lt: "sint x + sum_list (map sint xs) < 2 ^ 63"
    by simp_all
  have "sint (x + sum_list xs) = sint x + sint (sum_list xs)"
  proof (rule sint_add_exact)
    show "- (2 ^ 63) \<le> sint x + sint (sum_list xs)" using x0 nn by (simp add: ih)
    show "sint x + sint (sum_list xs) < 2 ^ 63" using lt by (simp add: ih)
  qed
  with ih show ?case by simp
qed

lemma sum_sizes_slot:
  "sum_sizes (map slot es) = sum_list (map (\<lambda>e. sint (fi_Size e)) (filter fi_IsRegular es))"
  by (induction es) (auto simp: sum_sizes_def slot_def)

lemma Open_accounted:
  assumes op: "OpenLimitedDir env fs p ms mc = (None, fs', Some d')"
    and nn: "\<forall>e \<in> set fs. 0 \<le> sint (fi_Size e)"
    and nov: "sum_list (map (\<lambda>e. sint (fi_Size e)) (filter fi_IsRegular fs)) < 2 ^ 63"
  shows "accounted d'"
proof -
  let ?es = "sort_Sort fs"
  let ?d = "\<lparr>path = p, maxSize = ms, maxCount = mc, files = map slot ?es,
             size_total = sum_list (map fi_Size (filter fi_IsRegular ?es))\<rparr>"
  obtain err fs1 d1 where sh: "shrink fs ?d = (err, fs1, d1)" by (cases "shrink fs ?d") auto
  from op sh have d1: "d1 = d'"
    by (auto simp: OpenLimitedDir_def Let_def scan_entries_eq split: option.splits if_splits)
  have ms: "mset ?es = mset fs" by (rule sort_Sort_mset)
  then have set_es: "set ?es = set fs" by (metis set_mset_mset)
  have "mset (map (\<lambda>e. sint (fi_Size e)) (filter fi_IsRegular ?es)) =
        mset (map (\<lambda>e. sint (fi_Size e)) (filter fi_IsRegular fs))"
    using ms by (metis mset_filter mset_map)
  then have sums: "sum_list (map (\<lambda>e. sint (fi_Size e)) (filter fi_IsRegular ?es)) =
        sum_list (map (\<lambda>e. sint (fi_Size e)) (filter fi_IsRegular fs))"
    by (metis sum_mset_sum_list)
  note reg = sum_sizes_slot [of ?es]
  have "sint (sum_list (map fi_Size (filter fi_IsRegular ?es))) =
        sum_list (map sint (map fi_Size (filter fi_IsRegular ?es)))"
    using nn nov sums set_es by (intro sint_sum_list) (auto simp: comp_def)
  with reg have "sum_sizes (files ?d) \<le> sint (size_total ?d)" by (simp add: comp_def)
  moreover from nn set_es have "\<forall>f \<in> set (files ?d). 0 \<le> sint (Size f)" by (auto simp: slot_def)
  ultimately have "accounted ?d" by (simp add: accounted_def)
  with sh d1 shrink_accounted show ?thesis by blast
qed

section \<open>When the total is exact\<close>

text \<open>
  While every tracked file is in the directory under a name tracked once, no eviction
  meets a missing file, and the running total stays the sum of the tracked sizes through
  the loop and through \<open>Add\<close> of a name not yet tracked.
\<close>

lemma os_Remove_removed:
  assumes "os_Remove fs name = (None, fs1)" and "name \<noteq> []"
  shows "fs1 = filter (\<lambda>e. fi_Name e \<noteq> name) fs"
  using assms by (auto simp: os_Remove_entry split: option.splits if_splits)

lemma os_Remove_absent:
  assumes "os_Remove fs name = (Some ErrNotExist, fs1)"
  shows "name \<notin> fi_Name ` set fs"
proof (cases "name = []")
  case True
  with assms show ?thesis by (auto simp: os_Remove_def split: if_splits)
next
  case False
  with assms have "find (\<lambda>e. fi_Name e = name) fs = None"
    by (auto simp: os_Remove_entry split: option.splits if_splits)
  then show ?thesis by (auto simp: find_None_iff)
qed

lemma os_Remove_refused: "os_Remove fs name = (Some e, fs1) \<Longrightarrow> fs1 = fs"
  by (auto simp: os_Remove_def split: option.splits if_splits)

lemma shrink_exact:
  "shrink fs d = (err, fs', d') \<Longrightarrow> on_disk fs d \<Longrightarrow> size_total d = tracked_sum d \<Longrightarrow>
     size_total d' = tracked_sum d' \<and> on_disk fs' d'"
proof (induction fs d rule: shrink_induct)
  case (stop fs d) then show ?case by (auto simp: shrink_stop)
next
  case (panic fs d) then show ?case by (auto simp: shrink_panic)
next
  case (removed fs d f rest fs1)
  let ?d1 = "d\<lparr>size_total := size_total d - Size f, files := rest\<rparr>"
  from removed(2,6) have ne: "Name f \<noteq> []" by (simp add: on_disk_def)
  from os_Remove_removed [OF removed(3) ne] have fs1: "fs1 = filter (\<lambda>e. fi_Name e \<noteq> Name f) fs" .
  have "on_disk fs1 ?d1"
    unfolding on_disk_def
  proof (intro conjI ballI)
    from removed(2,6) show "distinct (map Name (files ?d1))" by (simp add: on_disk_def)
  next
    fix g assume g: "g \<in> set (files ?d1)"
    with removed(2,6) show "Name g \<noteq> []" by (simp add: on_disk_def)
    from removed(2,6) have "Name f \<notin> Name ` set rest" by (simp add: on_disk_def)
    moreover from g have "g \<in> set rest" by simp
    ultimately have "Name g \<noteq> Name f" by (metis image_eqI)
    moreover from g removed(2,6) have "Name g \<in> fi_Name ` set fs" by (simp add: on_disk_def)
    ultimately show "Name g \<in> fi_Name ` set fs1" unfolding fs1 by auto
  qed
  moreover from removed(2,7) have "size_total ?d1 = tracked_sum ?d1"
    by (simp add: tracked_sum_def)
  moreover from removed have "shrink fs1 ?d1 = (err, fs', d')" by (simp add: shrink_removed)
  ultimately show ?case using removed(4) by blast
next
  case (absent fs d f rest fs1)
  from os_Remove_absent [OF absent(3)] absent(2,6) show ?case by (simp add: on_disk_def)
next
  case (failed fs d f rest fs1 e)
  from os_Remove_refused [OF failed(3)] failed show ?case by (auto simp: shrink_failed)
qed

lemma Add_exact:
  assumes "on_disk fs d" and "size_total d = tracked_sum d" and "name \<notin> Name ` set (files d)"
    and "name \<noteq> []" and "Add fs d name = (err, fs', d')"
  shows "size_total d' = tracked_sum d'"
proof (cases "os_Stat fs name")
  case (Inl e)
  with assms show ?thesis by (simp add: Add_def)
next
  case (Inr st)
  let ?d1 = "d\<lparr>files := files d @ [\<lparr>Name = name, Size = fi_Size st\<rparr>],
                size_total := size_total d + fi_Size st\<rparr>"
  from Inr have "name \<in> fi_Name ` set fs"
    by (auto simp: os_Stat_def split: option.splits dest: find_Some_iff [THEN iffD1])
  with assms(1,3,4) have "on_disk fs ?d1" by (auto simp: on_disk_def)
  moreover from assms(2) have "size_total ?d1 = tracked_sum ?d1" by (simp add: tracked_sum_def)
  moreover from assms(5) Inr have "shrink fs ?d1 = (err, fs', d')" by (simp add: Add_appends)
  ultimately show ?thesis using shrink_exact by blast
qed

section \<open>The canvas of fixImage\<close>

lemma Rect_RGBA_Set [simp]: "Rect (RGBA_Set p x y c) = Rect p"
  by (simp add: RGBA_Set_def)

lemma Pix_RGBA_Set:
  "Pix (RGBA_Set p x y c) x' y' =
     (if Point_In x y (Rect p) \<and> x' = x \<and> y' = y then rgbaModel c else Pix p x' y')"
  by (simp add: RGBA_Set_def)

lemma rgbaModel_white [simp]: "rgbaModel white = white"
  by (simp add: white_def)

lemma row_loop_Rect [simp]: "Rect (row_loop src sr dr j i dst) = Rect dst"
proof (induction src sr dr j i dst rule: row_loop.induct)
  case (1 src sr dr j i dst)
  show ?case
  proof (cases "i < X (Max_pt dr)")
    case True
    with 1 show ?thesis by (subst row_loop.simps) simp
  next
    case False
    then show ?thesis by (subst row_loop.simps) simp
  qed
qed

lemma row_loop_Pix:
  "Rect dst = dr \<Longrightarrow>
   Pix (row_loop src sr dr j i dst) x y =
     (if y = j \<and> i \<le> x \<and> Point_In x y dr then painted src sr x y else Pix dst x y)"
proof (induction src sr dr j i dst rule: row_loop.induct)
  case (1 src sr dr j i dst)
  show ?case
  proof (cases "i < X (Max_pt dr)")
    case False
    then show ?thesis by (subst row_loop.simps) (auto simp: Point_In_def)
  next
    case True
    let ?dst' = "if i \<ge> X (Min_pt sr) \<and> i < X (Max_pt sr) \<and> j \<ge> Y (Min_pt sr) \<and> j < Y (Max_pt sr)
           then RGBA_Set dst i j (At src i j) else RGBA_Set dst i j white"
    have r: "Rect ?dst' = dr" using "1.prems" by simp
    have step: "row_loop src sr dr j i dst = row_loop src sr dr j (i + 1) ?dst'"
      using True by (subst row_loop.simps) simp
    have px: "Pix ?dst' x y = (if Point_In i j dr \<and> x = i \<and> y = j then painted src sr x y else Pix dst x y)"
      using "1.prems" by (auto simp: Pix_RGBA_Set painted_def Point_In_def)
    show ?thesis
      unfolding step "1.IH" [OF True r] px
      by (auto simp: Point_In_def)
  qed
qed

lemma rows_loop_Rect [simp]: "Rect (rows_loop src sr dr j dst) = Rect dst"
proof (induction src sr dr j dst rule: rows_loop.induct)
  case (1 src sr dr j dst)
  show ?case
  proof (cases "j < Y (Max_pt dr)")
    case True
    with 1 show ?thesis by (subst rows_loop.simps) simp
  next
    case False
    then show ?thesis by (subst rows_loop.simps) simp
  qed
qed

lemma rows_loop_Pix:
  "Rect dst = dr \<Longrightarrow>
   Pix (rows_loop src sr dr j dst) x y =
     (if j \<le> y \<and> Point_In x y dr then painted src sr x y else Pix dst x y)"
proof (induction src sr dr j dst rule: rows_loop.induct)
  case (1 src sr dr j dst)
  show ?case
  proof (cases "j < Y (Max_pt dr)")
    case False
    then show ?thesis by (subst rows_loop.simps) (auto simp: Point_In_def)
  next
    case True
    let ?dst' = "row_loop src sr dr j (X (Min_pt dr)) dst"
    have r: "Rect ?dst' = dr" using "1.prems" by simp
    have step: "rows_loop src sr dr j dst = rows_loop src sr dr (j + 1) ?dst'"
      using True by (subst rows_loop.simps) simp
    show ?thesis
      unfolding step "1.IH" [OF True r] row_loop_Pix [OF "1.prems"]
      by (auto simp: Point_In_def)
  qed
qed

lemma canvas_Rect:
  assumes "X (Min_pt (Bounds src)) \<le> X (Max_pt (Bounds src))"
    and "Y (Min_pt (Bounds src)) \<le> Y (Max_pt (Bounds src))" and "0 \<le> p"
  shows "Rect (canvas src p) = padded (Bounds src) p"
  using assms by (simp add: canvas_def Let_def image_Rect_def image_NewRGBA_def padded_def)

lemma canvas_At:
  "RGBA_At (canvas src p) x y =
     (if Point_In x y (Rect (canvas src p)) then painted src (Bounds src) x y else RGBA 0 0 0 0)"
proof -
  let ?dr = "image_Rect (X (Min_pt (Bounds src)) - p) (Y (Min_pt (Bounds src)) - p)
                        (X (Max_pt (Bounds src)) + p) (Y (Max_pt (Bounds src)) + p)"
  have c: "canvas src p = rows_loop src (Bounds src) ?dr (Y (Min_pt ?dr)) (image_NewRGBA ?dr)"
    by (simp add: canvas_def Let_def)
  have r: "Rect (image_NewRGBA ?dr) = ?dr" by (simp add: image_NewRGBA_def)
  show ?thesis
    unfolding RGBA_At_def c rows_loop_Pix [OF r] rows_loop_Rect r
    by (auto simp: Point_In_def)
qed

lemma narrow_widen8: "ucast (drop_bit 8 (widen8 v)) = v"
  unfolding widen8_def Let_def
  by (rule bit_word_eqI) (auto simp: bit_simps dest: bit_imp_le_length)

lemma widen8_less: "unat (widen8 v) < 65536"
proof -
  have "take_bit 16 (widen8 v) = widen8 v"
    unfolding widen8_def Let_def
    by (rule bit_word_eqI) (auto simp: bit_simps dest: bit_imp_le_length)
  then have "unat (widen8 v) = take_bit 16 (unat (widen8 v))"
    by (metis unsigned_take_bit_eq)
  also have "\<dots> < 2 ^ 16" by (rule take_bit_nat_less_exp)
  finally show ?thesis by simp
qed

lemma widen8_255: "widen8 v * 255 div 255 = widen8 v"
proof -
  have "unat (widen8 v) * unat (255 :: 32 word) < 2 ^ LENGTH(32)"
    using widen8_less [of v] by simp
  then have "unat (widen8 v * 255) = unat (widen8 v) * 255"
    by (simp add: unat_mult_lem [THEN iffD1])
  then have "unat (widen8 v * 255 div 255) = unat (widen8 v)"
    by (simp add: unat_div)
  then show ?thesis by (rule word_unat_eq_iff [THEN iffD2])
qed

lemma rgbaModel_opaque_NRGBA: "rgbaModel (NRGBA r g b 255) = RGBA r g b 255"
proof -
  have "ucast (drop_bit 8 (widen8 (255 :: byte))) = (255 :: byte)" by (rule narrow_widen8)
  then show ?thesis by (simp add: widen8_255 narrow_widen8)
qed

lemma rgbaModel_Gray: "rgbaModel (Gray y) = RGBA y y y 255"
  by (simp add: narrow_widen8)

lemma pixel1_inside: "Point_In 0 0 (Bounds pixel1)"
  by (simp add: pixel1_def Point_In_def)

lemma pixel1_canvas: "RGBA_At (canvas pixel1 20) 0 0 = RGBA 128 64 0 128"
proof -
  have "Rect (canvas pixel1 20) = padded (Bounds pixel1) 20"
    by (intro canvas_Rect) (simp_all add: pixel1_def)
  then have "Point_In 0 0 (Rect (canvas pixel1 20))"
    by (simp add: padded_def pixel1_def Point_In_def)
  then show ?thesis
    using pixel1_inside by (simp add: canvas_At painted_def pixel1_def widen8_def)
qed

text \<open>
  C7, as amended. For a decoded image whose bounds are a rectangle (an \<open>N\<close> by \<open>N\<close>
  square in particular), the canvas built with padding 20 has the original bounds
  extended by 20 pixels on each of the four sides, so it is 40 pixels wider and higher;
  every pixel inside the original bounds is the original pixel converted to the colour
  model of the canvas, 8-bit alpha-premultiplied RGBA, which is the original pixel itself
  when it is of that model, and the same colour when it is an opaque 8-bit NRGBA or gray
  pixel; every pixel outside the original bounds is opaque white.
\<close>

theorem C7_padded_canvas:
  "X (Min_pt (Bounds src)) \<le> X (Max_pt (Bounds src)) \<and>
   Y (Min_pt (Bounds src)) \<le> Y (Max_pt (Bounds src)) \<longrightarrow>
     Rect (canvas src 20) = padded (Bounds src) 20 \<and>
     Dx (Rect (canvas src 20)) = Dx (Bounds src) + 40 \<and>
     Dy (Rect (canvas src 20)) = Dy (Bounds src) + 40 \<and>
     (\<forall>x y. Point_In x y (Bounds src) \<longrightarrow>
        RGBA_At (canvas src 20) x y = rgbaModel (At src x y)) \<and>
     (\<forall>x y r g b a. Point_In x y (Bounds src) \<and> At src x y = RGBA r g b a \<longrightarrow>
        RGBA_At (canvas src 20) x y = RGBA r g b a) \<and>
     (\<forall>x y r g b. Point_In x y (Bounds src) \<and> At src x y = NRGBA r g b 255 \<longrightarrow>
        RGBA_At (canvas src 20) x y = RGBA r g b 255) \<and>
     (\<forall>x y v. Point_In x y (Bounds src) \<and> At src x y = Gray v \<longrightarrow>
        RGBA_At (canvas src 20) x y = RGBA v v v 255) \<and>
     (\<forall>x y. Point_In x y (Rect (canvas src 20)) \<and> \<not> Point_In x y (Bounds src) \<longrightarrow>
        RGBA_At (canvas src 20) x y = white)"
proof (intro impI)
  assume wf: "X (Min_pt (Bounds src)) \<le> X (Max_pt (Bounds src)) \<and>
   Y (Min_pt (Bounds src)) \<le> Y (Max_pt (Bounds src))"
  then have r: "Rect (canvas src 20) = padded (Bounds src) 20"
    by (intro canvas_Rect) simp_all
  have inside: "Point_In x y (Rect (canvas src 20))" if "Point_In x y (Bounds src)" for x y
    using that by (simp add: r padded_def Point_In_def)
  have px: "RGBA_At (canvas src 20) x y = rgbaModel (At src x y)" if "Point_In x y (Bounds src)" for x y
    using that inside [OF that] by (simp add: canvas_At painted_def)
  have out: "RGBA_At (canvas src 20) x y = white"
    if "Point_In x y (Rect (canvas src 20))" "\<not> Point_In x y (Bounds src)" for x y
    using that by (simp add: canvas_At painted_def)
  show "Rect (canvas src 20) = padded (Bounds src) 20 \<and>
     Dx (Rect (canvas src 20)) = Dx (Bounds src) + 40 \<and>
     Dy (Rect (canvas src 20)) = Dy (Bounds src) + 40 \<and>
     (\<forall>x y. Point_In x y (Bounds src) \<longrightarrow>
        RGBA_At (canvas src 20) x y = rgbaModel (At src x y)) \<and>
     (\<forall>x y r g b a. Point_In x y (Bounds src) \<and> At src x y = RGBA r g b a \<longrightarrow>
        RGBA_At (canvas src 20) x y = RGBA r g b a) \<and>
     (\<forall>x y r g b. Point_In x y (Bounds src) \<and> At src x y = NRGBA r g b 255 \<longrightarrow>
        RGBA_At (canvas src 20) x y = RGBA r g b 255) \<and>
     (\<forall>x y v. Point_In x y (Bounds src) \<and> At src x y = Gray v \<longrightarrow>
        RGBA_At (canvas src 20) x y = RGBA v v v 255) \<and>
     (\<forall>x y. Point_In x y (Rect (canvas src 20)) \<and> \<not> Point_In x y (Bounds src) \<longrightarrow>
        RGBA_At (canvas src 20) x y = white)"
    using px out rgbaModel_opaque_NRGBA rgbaModel_Gray
    by (simp add: r padded_def Dx_def Dy_def)
qed

theorem C7_padded_canvas_witness:
  "X (Min_pt (Bounds pixel1)) \<le> X (Max_pt (Bounds pixel1)) \<and>
   Y (Min_pt (Bounds pixel1)) \<le> Y (Max_pt (Bounds pixel1)) \<and>
   Rect (canvas pixel1 20) = \<lparr>Min_pt = \<lparr>X = - 20, Y = - 20\<rparr>, Max_pt = \<lparr>X = 21, Y = 21\<rparr>\<rparr> \<and>
   Dx (Rect (canvas pixel1 20)) = 41 \<and>
   RGBA_At (canvas pixel1 20) 0 0 = RGBA 128 64 0 128 \<and>
   RGBA_At (canvas pixel1 20) (- 20) 20 = white"
proof -
  have wf: "X (Min_pt (Bounds pixel1)) \<le> X (Max_pt (Bounds pixel1)) \<and>
   Y (Min_pt (Bounds pixel1)) \<le> Y (Max_pt (Bounds pixel1))"
    by (simp add: pixel1_def)
  note t = C7_padded_canvas [where src = pixel1, rule_format, OF wf]
  from t have r: "Rect (canvas pixel1 20) = padded (Bounds pixel1) 20" by blast
  then have r': "Rect (canvas pixel1 20) = \<lparr>Min_pt = \<lparr>X = - 20, Y = - 20\<rparr>, Max_pt = \<lparr>X = 21, Y = 21\<rparr>\<rparr>"
    by (simp add: padded_def pixel1_def)
  from t pixel1_inside have "RGBA_At (canvas pixel1 20) 0 0 = rgbaModel (At pixel1 0 0)" by blast
  then have c: "RGBA_At (canvas pixel1 20) 0 0 = RGBA 128 64 0 128"
    by (simp add: pixel1_def widen8_def)
  have "Point_In (- 20) 20 (Rect (canvas pixel1 20)) \<and> \<not> Point_In (- 20) 20 (Bounds pixel1)"
    unfolding r' by (simp add: pixel1_def Point_In_def)
  with t have o: "RGBA_At (canvas pixel1 20) (- 20) 20 = white" by blast
  from wf r' c o show ?thesis by (simp add: Dx_def)
qed

text \<open>
  C7 as stated says that every pixel inside the original bounds equals the original
  pixel. A half-transparent orange pixel, as a PNG with an alpha channel holds it, comes
  out with other channels, and as another colour by \<open>Color.RGBA()\<close>.
\<close>

theorem C7_counterexample:
  "Point_In 0 0 (Bounds pixel1) \<and>
   At pixel1 0 0 = NRGBA 255 128 0 128 \<and>
   RGBA_At (canvas pixel1 20) 0 0 = RGBA 128 64 0 128 \<and>
   RGBA_At (canvas pixel1 20) 0 0 \<noteq> At pixel1 0 0 \<and>
   Color_RGBA (RGBA_At (canvas pixel1 20) 0 0) \<noteq> Color_RGBA (At pixel1 0 0)"
  using pixel1_inside by (simp add: pixel1_canvas) (simp add: pixel1_def widen8_def)

section \<open>The handler and save: time, the file on disk, the exits\<close>

lemma sint_of_int64:
  "- (2 ^ 63) \<le> d \<Longrightarrow> d < 2 ^ 63 \<Longrightarrow> sint (word_of_int d :: int64) = d"
  by (simp add: sint_sbintrunc' signed_take_bit_int_eq_self)

lemma time_Sub_later:
  assumes "t1 < t2"
  shows "time_Sub t2 t1 <s m \<longleftrightarrow> t2 - t1 < sint m"
proof (cases "t2 - t1 > 2 ^ 63 - 1")
  case True
  have "sint m < 2 ^ 63" using sint_lt [of m] by simp
  moreover have "sint (word_of_int (2 ^ 63 - 1) :: int64) = 2 ^ 63 - 1"
    by (rule sint_of_int64) simp_all
  ultimately show ?thesis using True by (simp add: time_Sub_def word_sless_alt)
next
  case False
  with assms have "sint (word_of_int (t2 - t1) :: int64) = t2 - t1"
    by (intro sint_of_int64) auto
  with False assms show ?thesis by (simp add: time_Sub_def word_sless_alt)
qed

lemma handler_refused:
  "time_Sub now (lastTime s) <s minDelay cfg \<Longrightarrow>
     handler env cfg now w body s = (Write (WriteHeader w 429) ''rate limited'', s)"
  by (simp add: handler_def)

lemma names_os_Remove: "fi_Name ` set (snd (os_Remove fs name)) \<subseteq> fi_Name ` set fs"
  by (cases "find (\<lambda>e. fi_Name e = name) fs") (auto simp: os_Remove_def)

lemma os_Remove_gone:
  assumes "\<forall>e \<in> set fs. fi_Name e = name \<longrightarrow> \<not> fi_locked e" and ne: "name \<noteq> []"
  shows "name \<notin> fi_Name ` set (snd (os_Remove fs name))"
proof (cases "find (\<lambda>e. fi_Name e = name) fs")
  case None
  then have "os_Remove fs name = (Some ErrNotExist, fs)" by (simp add: os_Remove_entry [OF ne])
  moreover from None have "name \<notin> fi_Name ` set fs" by (auto simp: find_None_iff)
  ultimately show ?thesis by simp
next
  case (Some e)
  then have "e \<in> set fs" "fi_Name e = name" by (auto simp: find_Some_iff)
  with assms have "\<not> fi_locked e" by blast
  with Some have "os_Remove fs name = (None, filter (\<lambda>e. fi_Name e \<noteq> name) fs)"
    by (simp add: os_Remove_entry [OF ne])
  then show ?thesis by auto
qed

lemma names_file_Write: "fi_Name ` set (file_Write env fs name bs) = fi_Name ` set fs"
  by (induction fs) (auto simp: file_Write_def)

lemma locked_file_Write:
  "e \<in> set (file_Write env fs name bs) \<Longrightarrow> fi_locked e \<Longrightarrow>
     \<exists>e' \<in> set fs. fi_Name e' = fi_Name e \<and> fi_locked e'"
  by (induction fs) (auto simp: file_Write_def split: if_splits)

lemma names_os_Create:
  assumes "os_Create env fs name = (None, fs1)"
  shows "fi_Name ` set fs1 = insert name (fi_Name ` set fs)"
proof (cases "find (\<lambda>e. fi_Name e = name) fs")
  case None
  with assms show ?thesis by (auto simp: os_Create_def split: option.splits)
next
  case (Some e)
  then have in_fs: "name \<in> fi_Name ` set fs" by (force simp: find_Some_iff)
  have "fi_Name ` set (map (\<lambda>x. if fi_Name x = name
           then x\<lparr>fi_Size := 0, fi_ModTime := clock env\<rparr> else x) fs) = fi_Name ` set fs"
    by (induction fs) auto
  with assms Some in_fs show ?thesis
    by (auto simp: os_Create_def split: option.splits if_splits)
qed

lemma locked_os_Create:
  assumes "os_Create env fs name = (None, fs1)" and "e \<in> set fs1" and "fi_locked e"
  shows "\<exists>e' \<in> set fs. fi_Name e' = fi_Name e \<and> fi_locked e'"
proof (cases "find (\<lambda>e. fi_Name e = name) fs")
  case None
  with assms show ?thesis by (auto simp: os_Create_def split: option.splits)
next
  case (Some x)
  have "e \<in> set (map (\<lambda>x. if fi_Name x = name
           then x\<lparr>fi_Size := 0, fi_ModTime := clock env\<rparr> else x) fs) \<Longrightarrow> ?thesis"
    using assms(3) by (induction fs) (auto split: if_splits)
  with assms Some show ?thesis
    by (auto simp: os_Create_def split: option.splits if_splits)
qed

lemma os_Create_err: "os_Create env fs name = (Some e, fs1) \<Longrightarrow> fs1 = fs"
  by (auto simp: os_Create_def split: option.splits if_splits)

text \<open>The candidate file after a failure between creation and registration.\<close>

lemma cleanup_staged:
  assumes cr: "os_Create env fs name = (None, fs1)" and ne: "name \<noteq> []"
  shows "fi_Name ` set (cleanup (file_Write env fs1 name bs) name) \<subseteq> fi_Name ` set fs"
    and "(\<forall>e \<in> set fs. fi_Name e = name \<longrightarrow> \<not> fi_locked e) \<Longrightarrow>
         name \<notin> fi_Name ` set (cleanup (file_Write env fs1 name bs) name)"
proof -
  let ?st = "file_Write env fs1 name bs"
  have names: "fi_Name ` set ?st = insert name (fi_Name ` set fs)"
    by (simp add: names_file_Write names_os_Create [OF cr])
  have locked: "\<exists>e' \<in> set fs. fi_Name e' = fi_Name e \<and> fi_locked e'"
    if "e \<in> set ?st" "fi_locked e" for e
  proof -
    from locked_file_Write [OF that] obtain e1 where "e1 \<in> set fs1" "fi_Name e1 = fi_Name e" "fi_locked e1"
      by blast
    with locked_os_Create [OF cr, of e1] show ?thesis by auto
  qed
  show gone: "name \<notin> fi_Name ` set (cleanup ?st name)"
    if "\<forall>e \<in> set fs. fi_Name e = name \<longrightarrow> \<not> fi_locked e"
    unfolding cleanup_def
  proof (rule os_Remove_gone [OF _ ne], intro ballI impI)
    fix e assume "e \<in> set ?st" "fi_Name e = name"
    with locked [of e] that show "\<not> fi_locked e" by auto
  qed
  show "fi_Name ` set (cleanup ?st name) \<subseteq> fi_Name ` set fs"
  proof (cases "name \<in> fi_Name ` set fs")
    case True
    with names names_os_Remove [of ?st name] show ?thesis by (auto simp: cleanup_def)
  next
    case False
    then have "\<forall>e \<in> set fs. fi_Name e = name \<longrightarrow> \<not> fi_locked e" by auto
    from gone [OF this] names names_os_Remove [of ?st name] show ?thesis
      by (auto simp: cleanup_def)
  qed
qed

text \<open>The exits of \<open>save\<close>, one lemma each.\<close>

lemma save_rand_fail:
  "rand_Read env = Inl e \<Longrightarrow> save env url fs d m w body = (Some e, fs, d, w)"
  by (simp add: save_def Let_def)

lemma save_create_fail:
  "rand_Read env = Inr buf \<Longrightarrow> os_Create env fs (Sprintf_x buf @ ''.png'') = (Some e, fs1) \<Longrightarrow>
     save env url fs d m w body = (Some e, fs1, d, w)"
  by (simp add: save_def Let_def)

lemma save_fixImage_fail:
  "rand_Read env = Inr buf \<Longrightarrow> os_Create env fs (Sprintf_x buf @ ''.png'') = (None, fs1) \<Longrightarrow>
   fixImage env (LimitedReader body m) 20 = (Some e, written) \<Longrightarrow>
     save env url fs d m w body =
       (Some e, cleanup (file_Write env fs1 (Sprintf_x buf @ ''.png'') written) (Sprintf_x buf @ ''.png''), d, w)"
  by (simp add: save_def Let_def)

lemma save_Close_fail:
  "rand_Read env = Inr buf \<Longrightarrow> os_Create env fs (Sprintf_x buf @ ''.png'') = (None, fs1) \<Longrightarrow>
   fixImage env (LimitedReader body m) 20 = (None, written) \<Longrightarrow> Close_err env = Some e \<Longrightarrow>
     save env url fs d m w body =
       (Some e, cleanup (file_Write env fs1 (Sprintf_x buf @ ''.png'') written) (Sprintf_x buf @ ''.png''), d, w)"
  by (simp add: save_def Let_def)

lemma save_Add_fail:
  "rand_Read env = Inr buf \<Longrightarrow> os_Create env fs (Sprintf_x buf @ ''.png'') = (None, fs1) \<Longrightarrow>
   fixImage env (LimitedReader body m) 20 = (None, written) \<Longrightarrow> Close_err env = None \<Longrightarrow>
   Add (file_Write env fs1 (Sprintf_x buf @ ''.png'') written) d (Sprintf_x buf @ ''.png'') = (Some e, fs3, d3) \<Longrightarrow>
     save env url fs d m w body = (Some e, fs3, d3, w)"
  by (simp add: save_def Let_def)

lemma save_Encode_fail:
  "rand_Read env = Inr buf \<Longrightarrow> os_Create env fs (Sprintf_x buf @ ''.png'') = (None, fs1) \<Longrightarrow>
   fixImage env (LimitedReader body m) 20 = (None, written) \<Longrightarrow> Close_err env = None \<Longrightarrow>
   Add (file_Write env fs1 (Sprintf_x buf @ ''.png'') written) d (Sprintf_x buf @ ''.png'') = (None, fs3, d3) \<Longrightarrow>
   Encode_err env = Some e \<Longrightarrow>
     save env url fs d m w body = (Some e, fs3, d3, w\<lparr>content_type := Some ''image/png''\<rparr>)"
  by (simp add: save_def Let_def)

lemma save_done:
  "rand_Read env = Inr buf \<Longrightarrow> os_Create env fs (Sprintf_x buf @ ''.png'') = (None, fs1) \<Longrightarrow>
   fixImage env (LimitedReader body m) 20 = (None, written) \<Longrightarrow> Close_err env = None \<Longrightarrow>
   Add (file_Write env fs1 (Sprintf_x buf @ ''.png'') written) d (Sprintf_x buf @ ''.png'') = (None, fs3, d3) \<Longrightarrow>
   Encode_err env = None \<Longrightarrow>
     save env url fs d m w body =
       (None, fs3, d3, Write (w\<lparr>content_type := Some ''image/png''\<rparr>)
                         (json_Marshal env (url @ Sprintf_x buf @ ''.png'')))"
  by (simp add: save_def Let_def)

lemma save_status:
  assumes "save env url fs d m w body = (err, fs', d', w')" and "status w = None"
  shows "status w' = (if err = None then Some 200 else None)"
proof (cases "rand_Read env")
  case (Inl e)
  from save_rand_fail [OF this] assms show ?thesis by auto
next
  case (Inr buf)
  obtain cerr fs1 where cr: "os_Create env fs (Sprintf_x buf @ ''.png'') = (cerr, fs1)" by force
  obtain ferr written where fx: "fixImage env (LimitedReader body m) 20 = (ferr, written)" by force
  obtain aerr fs3 d3 where ad:
    "Add (file_Write env fs1 (Sprintf_x buf @ ''.png'') written) d (Sprintf_x buf @ ''.png'') = (aerr, fs3, d3)"
    by (metis prod_cases3)
  show ?thesis
  proof (cases cerr)
    case (Some e)
    from save_create_fail [OF Inr cr [unfolded Some]] assms show ?thesis by auto
  next
    case None
    note cr = cr [unfolded None]
    show ?thesis
    proof (cases ferr)
      case (Some e)
      from save_fixImage_fail [OF Inr cr fx [unfolded Some]] assms show ?thesis by auto
    next
      case None
      note fx = fx [unfolded None]
      show ?thesis
      proof (cases "Close_err env")
        case (Some e)
        from save_Close_fail [OF Inr cr fx Some] assms show ?thesis by auto
      next
        case None
        note cl = None
        show ?thesis
        proof (cases aerr)
          case (Some e)
          from save_Add_fail [OF Inr cr fx cl ad [unfolded Some]] assms show ?thesis by auto
        next
          case None
          note ad = ad [unfolded None]
          show ?thesis
          proof (cases "Encode_err env")
            case (Some e)
            from save_Encode_fail [OF Inr cr fx cl ad Some] assms show ?thesis by auto
          next
            case None
            from save_done [OF Inr cr fx cl ad None] assms show ?thesis
              by (auto simp: Write_def WriteHeader_def)
          qed
        qed
      qed
    qed
  qed
qed

lemma handler_admitted:
  assumes "\<not> time_Sub now (lastTime s) <s minDelay cfg" and "handler env cfg now w body s = (w', s')"
    and "status w = None"
  shows "lastTime s' = now \<and> (status w' = Some 200 \<or> status w' = Some 500)"
proof -
  obtain err fs1 d1 w1 where sv: "save env (imgURL_c cfg) (images s) (imgDir_s s) (maxImgSize_c cfg) w body = (err, fs1, d1, w1)"
    by (metis prod_cases4)
  from save_status [OF sv assms(3)] assms(1,2) sv show ?thesis
    by (cases err) (auto simp: handler_def Let_def Write_def WriteHeader_def)
qed

lemma save_fails_before_commit:
  assumes "(\<exists>e. fst (fixImage env (LimitedReader body m) 20) = Some e) \<or> Close_err env \<noteq> None"
    and "save env url fs d m w body = (err, fs', d', w')"
  shows "err \<noteq> None \<and> d' = d \<and> w' = w \<and> fi_Name ` set fs' \<subseteq> fi_Name ` set fs"
proof (cases "rand_Read env")
  case (Inl e)
  from save_rand_fail [OF this] assms(2) show ?thesis by auto
next
  case (Inr buf)
  let ?name = "Sprintf_x buf @ ''.png''"
  obtain cerr fs1 where cr: "os_Create env fs ?name = (cerr, fs1)" by force
  obtain ferr written where fx: "fixImage env (LimitedReader body m) 20 = (ferr, written)" by force
  show ?thesis
  proof (cases cerr)
    case (Some e)
    from save_create_fail [OF Inr cr [unfolded Some]] os_Create_err [OF cr [unfolded Some]] assms(2)
    show ?thesis by auto
  next
    case None
    note cr = cr [unfolded None]
    have ne: "?name \<noteq> []" by simp
    note sub = cleanup_staged(1) [OF cr ne, of written]
    show ?thesis
    proof (cases ferr)
      case (Some e)
      from save_fixImage_fail [OF Inr cr fx [unfolded Some]] assms(2) sub show ?thesis by auto
    next
      case None
      with assms(1) fx obtain e where "Close_err env = Some e" by auto
      from save_Close_fail [OF Inr cr fx [unfolded None] this] assms(2) sub show ?thesis by auto
    qed
  qed
qed

lemma handler_admitted_time:
  assumes "\<not> time_Sub now (lastTime s) <s minDelay cfg" and "handler env cfg now w body s = (w', s')"
  shows "lastTime s' = now"
proof -
  obtain err fs1 d1 w1 where sv: "save env (imgURL_c cfg) (images s) (imgDir_s s) (maxImgSize_c cfg) w body = (err, fs1, d1, w1)"
    by (metis prod_cases4)
  from assms sv show ?thesis
    by (cases err) (auto simp: handler_def Let_def)
qed

lemma status_rate_limited: "status w = None \<Longrightarrow> status (Write (WriteHeader w 429) ''rate limited'') = Some 429"
  by (simp add: Write_def WriteHeader_def)

lemma first_request:
  "handler env_bad cfg0 6000000000 w0 [1, 2, 3] srv0 =
     (\<lparr>status = Some 500, content_type = None, sent = ''could not save image: error''\<rparr>,
      srv0\<lparr>lastTime := 6000000000\<rparr>)"
proof -
  have sp: "Sprintf_x [1, 2, 3, 4, 5, 6, 7, 8, 9, 10, 11, 12, 13, 14, 15, 171] = ''0102030405060708090a0b0c0d0e0fab''"
    by (simp add: Sprintf_x_def hex_digit_def)
  have "save env_bad ''/saved/'' [] store0 10000000 w0 [1, 2, 3] = (Some ErrFormat, [], store0, w0)"
    by (simp add: save_def env_bad_def sp os_Create_def fixImage_def file_Write_def cleanup_def os_Remove_def)
  then show ?thesis
    by (simp add: handler_def srv0_def cfg0_def time_Sub_def word_sless_alt w0_def Write_def WriteHeader_def)
       (simp add: env_bad_def)
qed

lemma fixImage_fails_iff:
  "(\<exists>e. fst (fixImage env r p) = Some e) \<longleftrightarrow>
     (\<exists>e. png_Decode env r = Inl e) \<or>
     (\<exists>src e bs. png_Decode env r = Inr src \<and> png_Encode env (canvas src p) = (Some e, bs))"
proof (cases "png_Decode env r")
  case (Inl e)
  then show ?thesis by (simp add: fixImage_def)
next
  case (Inr src)
  obtain ee bs where "png_Encode env (canvas src p) = (ee, bs)" by force
  with Inr show ?thesis by (simp add: fixImage_def)
qed

lemma save_candidate_removed:
  assumes fail: "(\<exists>e. fst (fixImage env (LimitedReader body m) 20) = Some e) \<or> Close_err env \<noteq> None"
    and run: "save env url fs d m w body = (err, fs', d', w')"
    and rnd: "rand_Read env = Inr buf"
    and cr: "os_Create env fs (Sprintf_x buf @ ''.png'') = (None, fs1)"
    and free: "\<forall>e \<in> set fs. fi_Name e = Sprintf_x buf @ ''.png'' \<longrightarrow> \<not> fi_locked e"
  shows "Sprintf_x buf @ ''.png'' \<notin> fi_Name ` set fs'"
proof -
  obtain ferr written where fx: "fixImage env (LimitedReader body m) 20 = (ferr, written)" by force
  have ne: "Sprintf_x buf @ ''.png'' \<noteq> []" by simp
  note gone = cleanup_staged(2) [OF cr ne free, of written]
  show ?thesis
  proof (cases ferr)
    case (Some e)
    from save_fixImage_fail [OF rnd cr fx [unfolded Some]] run gone show ?thesis by auto
  next
    case None
    with fail fx obtain e where "Close_err env = Some e" by auto
    from save_Close_fail [OF rnd cr fx [unfolded None] this] run gone show ?thesis by auto
  qed
qed

text \<open>
  Two requests handled one after the other, the second starting from the state the first
  has left, at \<open>t1 < t2\<close>, the first admitted: the first leaves \<open>lastTime = t1\<close>,
  whatever becomes of its \<open>save\<close>; the second gets the rate-limited response (status
  429) and changes nothing exactly when \<open>t2 - t1 < minDelay\<close>; otherwise it sets
  \<open>lastTime\<close> to \<open>t2\<close>.
\<close>

lemma handler_one_after_the_other:
  "t1 < t2 \<and> \<not> time_Sub t1 (lastTime s) <s minDelay cfg \<and> status w2 = None \<and>
   handler env1 cfg t1 w1 body1 s = (r1, s1) \<and> handler env2 cfg t2 w2 body2 s1 = (r2, s2) \<longrightarrow>
     lastTime s1 = t1 \<and>
     ((r2 = Write (WriteHeader w2 429) ''rate limited'' \<and> s2 = s1) \<longleftrightarrow> t2 - t1 < sint (minDelay cfg)) \<and>
     (status r2 = Some 429 \<longleftrightarrow> t2 - t1 < sint (minDelay cfg)) \<and>
     lastTime s2 = (if t2 - t1 < sint (minDelay cfg) then t1 else t2)"
proof (intro impI)
  assume h: "t1 < t2 \<and> \<not> time_Sub t1 (lastTime s) <s minDelay cfg \<and> status w2 = None \<and>
   handler env1 cfg t1 w1 body1 s = (r1, s1) \<and> handler env2 cfg t2 w2 body2 s1 = (r2, s2)"
  then have l1: "lastTime s1 = t1" using handler_admitted_time by blast
  from h have gate: "time_Sub t2 t1 <s minDelay cfg \<longleftrightarrow> t2 - t1 < sint (minDelay cfg)"
    using time_Sub_later by blast
  show "lastTime s1 = t1 \<and>
     ((r2 = Write (WriteHeader w2 429) ''rate limited'' \<and> s2 = s1) \<longleftrightarrow> t2 - t1 < sint (minDelay cfg)) \<and>
     (status r2 = Some 429 \<longleftrightarrow> t2 - t1 < sint (minDelay cfg)) \<and>
     lastTime s2 = (if t2 - t1 < sint (minDelay cfg) then t1 else t2)"
  proof (cases "t2 - t1 < sint (minDelay cfg)")
    case True
    with gate l1 have "time_Sub t2 (lastTime s1) <s minDelay cfg" by simp
    from handler_refused [OF this, of env2 w2 body2] h
    have "r2 = Write (WriteHeader w2 429) ''rate limited''" "s2 = s1" by simp_all
    with True l1 h show ?thesis by (simp add: status_rate_limited)
  next
    case False
    with gate l1 have adm: "\<not> time_Sub t2 (lastTime s1) <s minDelay cfg" by simp
    from h have run: "handler env2 cfg t2 w2 body2 s1 = (r2, s2)" and w2: "status w2 = None" by simp_all
    from handler_admitted [OF adm run w2]
    have "lastTime s2 = t2" "status r2 = Some 200 \<or> status r2 = Some 500" by simp_all
    with False l1 h show ?thesis by auto
  qed
qed

lemma handler_one_after_the_other_example:
  "(6000000000 :: int) < 8000000000 \<and>
   \<not> time_Sub 6000000000 (lastTime srv0) <s minDelay cfg0 \<and>
   handler env_bad cfg0 6000000000 w0 [1, 2, 3] srv0 =
     (\<lparr>status = Some 500, content_type = None, sent = ''could not save image: error''\<rparr>,
      srv0\<lparr>lastTime := 6000000000\<rparr>) \<and>
   handler env_bad cfg0 8000000000 w0 [1, 2, 3] (srv0\<lparr>lastTime := 6000000000\<rparr>) =
     (Write (WriteHeader w0 429) ''rate limited'', srv0\<lparr>lastTime := 6000000000\<rparr>)"
proof -
  let ?s1 = "srv0\<lparr>lastTime := 6000000000\<rparr>"
  obtain r2 s2 where second: "handler env_bad cfg0 8000000000 w0 [1, 2, 3] ?s1 = (r2, s2)" by force
  have pre: "(6000000000 :: int) < 8000000000 \<and>
      \<not> time_Sub 6000000000 (lastTime srv0) <s minDelay cfg0 \<and> status w0 = None"
    by (simp add: srv0_def cfg0_def time_Sub_def word_sless_alt w0_def)
  have soon: "(8000000000 :: int) - 6000000000 < sint (minDelay cfg0)" by (simp add: cfg0_def)
  from handler_one_after_the_other [where ?t1.0 = 6000000000 and ?t2.0 = 8000000000 and s = srv0 and cfg = cfg0
      and ?w2.0 = w0 and ?env1.0 = env_bad and ?w1.0 = w0 and ?body1.0 = "[1, 2, 3]"
      and ?s1.0 = ?s1 and ?env2.0 = env_bad and ?body2.0 = "[1, 2, 3]" and ?r2.0 = r2 and ?s2.0 = s2]
    pre first_request second soon
  have "r2 = Write (WriteHeader w0 429) ''rate limited'' \<and> s2 = ?s1" by blast
  with pre first_request second show ?thesis by simp
qed

text \<open>
  C5. Of two requests arriving at \<open>t1 < t2\<close>, the first admitted, the second is meant
  to be refused exactly when \<open>t2 - t1 < minDelay\<close>. It is so when the handler of the
  second starts after the first has written \<open>lastTime\<close>, as above, and not when the two
  overlap: with \<open>minDelay\<close> of five seconds and the last admission seven seconds
  before, a request arriving 70 nanoseconds after another, and reading \<open>lastTime\<close>
  before the other has written it, is admitted too.
\<close>

theorem C5_overlapping_second_request_is_admitted:
  "(7000000000 :: int) < 7000000070 \<and>
   (7000000070 :: int) - 7000000000 < sint (5000000000 :: int64) \<and>
   run_schedule 5000000000 [0, 1, 0, 0, 1, 1] close_requests =
     (7000000070, [\<lparr>req_now = 7000000000, req_at = Saving\<rparr>,
                   \<lparr>req_now = 7000000070, req_at = Saving\<rparr>]) \<and>
   run_schedule 5000000000 [0, 0, 0, 1, 1, 1] close_requests =
     (7000000000, [\<lparr>req_now = 7000000000, req_at = Saving\<rparr>,
                   \<lparr>req_now = 7000000070, req_at = Refused\<rparr>])"
  by (simp add: close_requests_def request_step_def time_Sub_def word_sless_alt)

text \<open>
  C6. The check of \<open>lastTime\<close> and its update are meant to be one critical section.
  They are two: with \<open>minDelay\<close> of five seconds, two requests arriving at the same
  instant, seven seconds after the last admitted one, are both admitted when each reads
  \<open>lastTime\<close> before the other writes it; one after the other, the second is refused.
\<close>

theorem C6_both_requests_pass_the_gate:
  "run_schedule 5000000000 [0, 1, 0, 1, 0, 1] two_requests =
     (7000000000, [\<lparr>req_now = 7000000000, req_at = Saving\<rparr>,
                   \<lparr>req_now = 7000000000, req_at = Saving\<rparr>]) \<and>
   run_schedule 5000000000 [0, 0, 0, 1, 1, 1] two_requests =
     (7000000000, [\<lparr>req_now = 7000000000, req_at = Saving\<rparr>,
                   \<lparr>req_now = 7000000000, req_at = Refused\<rparr>])"
  by (simp add: two_requests_def request_step_def time_Sub_def word_sless_alt)

text \<open>
  C8. When decoding fails, or encoding fails, or closing the file fails, \<open>save\<close>
  returns an error, the store is as it was (nothing is registered), the response writer
  is untouched, and no name is in the directory that was not there before; the candidate
  file that \<open>os.Create\<close> made is gone, unless a file of that name was there before and
  cannot be removed.
\<close>

theorem C8_failed_ingestion_leaves_nothing:
  "((\<exists>e. png_Decode env (LimitedReader body m) = Inl e) \<or>
    (\<exists>src e bs. png_Decode env (LimitedReader body m) = Inr src \<and>
                png_Encode env (canvas src 20) = (Some e, bs)) \<or>
    Close_err env \<noteq> None) \<and>
   save env url fs d m w body = (err, fs', d', w') \<longrightarrow>
     err \<noteq> None \<and> d' = d \<and> files d' = files d \<and> size_total d' = size_total d \<and> w' = w \<and>
     fi_Name ` set fs' \<subseteq> fi_Name ` set fs \<and>
     (\<forall>buf fs1. rand_Read env = Inr buf \<and>
        os_Create env fs (Sprintf_x buf @ ''.png'') = (None, fs1) \<and>
        (\<forall>e \<in> set fs. fi_Name e = Sprintf_x buf @ ''.png'' \<longrightarrow> \<not> fi_locked e) \<longrightarrow>
          Sprintf_x buf @ ''.png'' \<notin> fi_Name ` set fs')"
proof (intro impI)
  assume h: "((\<exists>e. png_Decode env (LimitedReader body m) = Inl e) \<or>
    (\<exists>src e bs. png_Decode env (LimitedReader body m) = Inr src \<and>
                png_Encode env (canvas src 20) = (Some e, bs)) \<or>
    Close_err env \<noteq> None) \<and>
   save env url fs d m w body = (err, fs', d', w')"
  then have fail: "(\<exists>e. fst (fixImage env (LimitedReader body m) 20) = Some e) \<or> Close_err env \<noteq> None"
    using fixImage_fails_iff [of env "LimitedReader body m" 20] by blast
  from h have run: "save env url fs d m w body = (err, fs', d', w')" by simp
  from save_fails_before_commit [OF fail run] save_candidate_removed [OF fail run]
  show "err \<noteq> None \<and> d' = d \<and> files d' = files d \<and> size_total d' = size_total d \<and> w' = w \<and>
     fi_Name ` set fs' \<subseteq> fi_Name ` set fs \<and>
     (\<forall>buf fs1. rand_Read env = Inr buf \<and>
        os_Create env fs (Sprintf_x buf @ ''.png'') = (None, fs1) \<and>
        (\<forall>e \<in> set fs. fi_Name e = Sprintf_x buf @ ''.png'' \<longrightarrow> \<not> fi_locked e) \<longrightarrow>
          Sprintf_x buf @ ''.png'' \<notin> fi_Name ` set fs')"
    by blast
qed

theorem C8_failed_ingestion_leaves_nothing_witness:
  "png_Decode env_bad (LimitedReader [1, 2, 3] 10000000) = Inl ErrFormat \<and>
   save env_bad ''/saved/'' [fA] store0 10000000 w0 [1, 2, 3] = (Some ErrFormat, [fA], store0, w0) \<and>
   os_Create env_bad [fA] ''0102030405060708090a0b0c0d0e0fab.png'' =
     (None, [fA, mkfile ''0102030405060708090a0b0c0d0e0fab.png'' 0 100]) \<and>
   ''0102030405060708090a0b0c0d0e0fab.png'' \<notin> fi_Name ` set [fA]"
proof -
  have sp: "Sprintf_x [1, 2, 3, 4, 5, 6, 7, 8, 9, 10, 11, 12, 13, 14, 15, 171] = ''0102030405060708090a0b0c0d0e0fab''"
    by (simp add: Sprintf_x_def hex_digit_def)
  have dec: "png_Decode env_bad (LimitedReader [1, 2, 3] 10000000) = Inl ErrFormat"
    by (simp add: env_bad_def)
  have rnd: "rand_Read env_bad = Inr [1, 2, 3, 4, 5, 6, 7, 8, 9, 10, 11, 12, 13, 14, 15, 171]"
    by (simp add: env_bad_def)
  have cr: "os_Create env_bad [fA] (Sprintf_x [1, 2, 3, 4, 5, 6, 7, 8, 9, 10, 11, 12, 13, 14, 15, 171] @ ''.png'') =
     (None, [fA, mkfile ''0102030405060708090a0b0c0d0e0fab.png'' 0 100])"
    by (simp add: sp os_Create_def env_bad_def fA_def mkfile_def)
  have free: "\<forall>e \<in> set [fA]. fi_Name e = Sprintf_x [1, 2, 3, 4, 5, 6, 7, 8, 9, 10, 11, 12, 13, 14, 15, 171] @ ''.png'' \<longrightarrow> \<not> fi_locked e"
    by (simp add: fA_def mkfile_def)
  have run: "save env_bad ''/saved/'' [fA] store0 10000000 w0 [1, 2, 3] = (Some ErrFormat, [fA], store0, w0)"
    by (simp add: save_def env_bad_def sp os_Create_def fixImage_def file_Write_def cleanup_def
        os_Remove_def fA_def mkfile_def)
  from C8_failed_ingestion_leaves_nothing [where env = env_bad and body = "[1, 2, 3]" and m = 10000000
      and url = "''/saved/''" and fs = "[fA]" and d = store0 and w = w0 and err = "Some ErrFormat"
      and fs' = "[fA]" and d' = store0 and w' = w0] dec run rnd cr free
  have "Sprintf_x [1, 2, 3, 4, 5, 6, 7, 8, 9, 10, 11, 12, 13, 14, 15, 171] @ ''.png'' \<notin> fi_Name ` set [fA]"
    by blast
  with dec run cr show ?thesis by (simp add: sp)
qed

end
